theory Spec2Isabelle
  imports Complex_Main "HOL-Library.Word" "HOL-Library.Sublist"
begin

section \<open>Recordings input and output (recordings\_io.py)\<close>

text \<open>
  The module has two free functions, \<open>read\<close> and \<open>write\<close>, and the class \<open>Walker\<close>.
  It raises no exception of its own: every failure is one that numpy, Python's float
  arithmetic, the wave codec or the operating system raises.

  Numbers. A numpy float is modelled by the type \<open>fl\<close>: a finite value is a real number
  (there is no negative zero), and the three special values that numpy produces instead
  of raising on a division by zero (\<open>inf\<close>, \<open>-inf\<close>, \<open>nan\<close>) are kept, with their IEEE 754
  arithmetic, because what the code does on a silent buffer depends on them. \<open>fl_div\<close> and
  \<open>fl_mul\<close> give the exact quotient and product of finite values. The arithmetic of
  \<open>write\<close> is that of doubles (IEEE 754 binary64): \<open>d_div\<close> and \<open>d_mul\<close> round the exact
  result to the nearest double, ties to even, and overflow to an infinity. The quotient
  in \<open>read\<close>, which computes in \<open>float32\<close>, is left exact: rounding to the nearest value
  changes neither the quotient 1 of the peak by itself nor the bound 1 on the others.
\<close>

subsection \<open>Errors\<close>

datatype error =
    ValueError    \<comment> \<open>numpy: reduction of an empty array, negative dimension, shapes that do not broadcast\<close>
  | OverflowError \<comment> \<open>Python: a power of floats too large for a double\<close>
  | IOError       \<comment> \<open>the wave codec or the file system\<close>

subsection \<open>numpy floats\<close>

datatype fl = Fin real | PInf | NInf | NaN

fun fl_abs :: "fl \<Rightarrow> fl" where
  "fl_abs (Fin r) = Fin \<bar>r\<bar>"
| "fl_abs PInf = PInf"
| "fl_abs NInf = PInf"
| "fl_abs NaN = NaN"

text \<open>\<open>np.maximum\<close>: the larger of two values; a \<open>nan\<close> operand gives \<open>nan\<close>.\<close>

fun fl_maximum :: "fl \<Rightarrow> fl \<Rightarrow> fl" where
  "fl_maximum NaN y = NaN"
| "fl_maximum x NaN = NaN"
| "fl_maximum PInf y = PInf"
| "fl_maximum x PInf = PInf"
| "fl_maximum NInf y = y"
| "fl_maximum x NInf = x"
| "fl_maximum (Fin a) (Fin b) = Fin (max a b)"

text \<open>Division of floats. numpy does not raise on a zero divisor: it warns and returns
  \<open>nan\<close> for \<open>0 / 0\<close> and an infinity otherwise.\<close>

fun fl_div :: "fl \<Rightarrow> fl \<Rightarrow> fl" where
  "fl_div NaN y = NaN"
| "fl_div x NaN = NaN"
| "fl_div (Fin a) (Fin b) =
     (if b \<noteq> 0 then Fin (a / b)
      else if a = 0 then NaN
      else if 0 < a then PInf else NInf)"
| "fl_div (Fin a) PInf = Fin 0"
| "fl_div (Fin a) NInf = Fin 0"
| "fl_div PInf (Fin b) = (if 0 \<le> b then PInf else NInf)"
| "fl_div NInf (Fin b) = (if 0 \<le> b then NInf else PInf)"
| "fl_div PInf PInf = NaN"
| "fl_div PInf NInf = NaN"
| "fl_div NInf PInf = NaN"
| "fl_div NInf NInf = NaN"

fun fl_mul :: "fl \<Rightarrow> fl \<Rightarrow> fl" where
  "fl_mul NaN y = NaN"
| "fl_mul x NaN = NaN"
| "fl_mul (Fin a) (Fin b) = Fin (a * b)"
| "fl_mul (Fin a) PInf = (if a = 0 then NaN else if 0 < a then PInf else NInf)"
| "fl_mul (Fin a) NInf = (if a = 0 then NaN else if 0 < a then NInf else PInf)"
| "fl_mul PInf (Fin b) = (if b = 0 then NaN else if 0 < b then PInf else NInf)"
| "fl_mul NInf (Fin b) = (if b = 0 then NaN else if 0 < b then NInf else PInf)"
| "fl_mul PInf PInf = PInf"
| "fl_mul PInf NInf = NInf"
| "fl_mul NInf PInf = NInf"
| "fl_mul NInf NInf = PInf"

text \<open>\<open>np.max\<close> of a one-dimensional array: a left-to-right reduction with
  \<open>np.maximum\<close>; an empty array has no maximum and numpy raises \<open>ValueError\<close>.\<close>

definition np_max :: "fl list \<Rightarrow> error + fl" where
  "np_max xs = (case xs of [] \<Rightarrow> Inl ValueError | x # rest \<Rightarrow> Inr (foldl fl_maximum x rest))"

subsection \<open>Doubles\<close>

text \<open>
  Rounding to the nearest integer, ties to the even one.
\<close>

definition round_even :: "real \<Rightarrow> int" where
  "round_even y =
     (let f = \<lfloor>y\<rfloor>; d = y - of_int f
      in if d < 1 / 2 then f else if 1 / 2 < d then f + 1 else if even f then f else f + 1)"

text \<open>
  Rounding of a real number to binary64. A double has 53 significant bits: a number of
  binary exponent \<open>e\<close> is rounded to a multiple of \<open>2 powr (e - 52)\<close>, and to a multiple of
  \<open>2 powr (- 1074)\<close>, the smallest positive double, below the normal range. A result of
  magnitude \<open>2 ^ 1024\<close> or more is an overflow and gives an infinity.
\<close>

definition nearest :: "real \<Rightarrow> real" where
  "nearest x =
     (if x = 0 then 0
      else let e = \<lfloor>log 2 \<bar>x\<bar>\<rfloor>;
               q = max (e - 52) (- 1074)
           in of_int (round_even (x / 2 powr of_int q)) * 2 powr of_int q)"

definition round64 :: "real \<Rightarrow> fl" where
  "round64 x =
     (let c = nearest x
      in if 2 ^ 1024 \<le> \<bar>c\<bar> then (if 0 < x then PInf else NInf) else Fin c)"

definition round_fl :: "fl \<Rightarrow> fl" where
  "round_fl x = (case x of Fin r \<Rightarrow> round64 r | _ \<Rightarrow> x)"

definition d_div :: "fl \<Rightarrow> fl \<Rightarrow> fl" where
  "d_div x y = round_fl (fl_div x y)"

definition d_mul :: "fl \<Rightarrow> fl \<Rightarrow> fl" where
  "d_mul x y = round_fl (fl_mul x y)"

text \<open>
  \<open>10 ** x\<close> for a float \<open>x\<close> is the \<open>pow\<close> of the C library, taken here to round
  correctly. Python raises \<open>OverflowError\<close> when the result of a finite \<open>x\<close> overflows;
  an underflow gives zero.
\<close>

definition py_pow10 :: "fl \<Rightarrow> error + fl" where
  "py_pow10 x =
     (case x of
        Fin r \<Rightarrow> (if round64 (10 powr r) = PInf then Inl OverflowError
                  else Inr (round64 (10 powr r)))
      | PInf \<Rightarrow> Inr PInf
      | NInf \<Rightarrow> Inr (Fin 0)
      | NaN \<Rightarrow> Inr NaN)"

subsection \<open>read\<close>

text \<open>
  \<^verbatim>\<open>
  def read(path):
      (rate, sample) = wav.read(path)
      sample = sample.astype('float32')
      sample /= np.max(np.abs(sample), axis=0)  # Normalize sample
      return rate, sample
  \<close>
  The codec \<open>wav.read\<close> is a collaborator and a parameter of the model: it returns the
  sample rate and the integer samples of a single channel, or fails.
\<close>

definition read :: "(string \<Rightarrow> error + int \<times> int list) \<Rightarrow> string \<Rightarrow> error + int \<times> fl list" where
  "read wav_read path =
     (case wav_read path of
        Inl e \<Rightarrow> Inl e
      | Inr (rate, raw) \<Rightarrow>
          (let sample = map (\<lambda>x. Fin (of_int x)) raw in
           case np_max (map fl_abs sample) of
             Inl e \<Rightarrow> Inl e
           | Inr peak \<Rightarrow> Inr (rate, map (\<lambda>x. fl_div x peak) sample)))"

subsection \<open>Slices of one-dimensional arrays\<close>

text \<open>
  A slice bound of Python is first made absolute: a negative bound counts from the end,
  and the result is clipped to \<open>0 .. n\<close>. No bound is ever out of range.
\<close>

definition adjust_index :: "nat \<Rightarrow> int \<Rightarrow> nat" where
  "adjust_index n i =
     (if i < 0 then (if i + int n < 0 then 0 else nat (i + int n))
      else if int n \<le> i then n else nat i)"

text \<open>\<open>xs[start:stop]\<close>: the elements from the adjusted \<open>start\<close> up to the adjusted
  \<open>stop\<close>; the subtraction on \<open>nat\<close> stops at zero, as the slice length does.\<close>

definition py_slice :: "'a list \<Rightarrow> int \<Rightarrow> int \<Rightarrow> 'a list" where
  "py_slice xs start stop =
     (let lo = adjust_index (length xs) start;
          hi = adjust_index (length xs) stop
      in take (hi - lo) (drop lo xs))"

text \<open>
  \<open>dst[start:stop] = src\<close> on a numpy array never changes the length of \<open>dst\<close>. numpy
  broadcasts \<open>src\<close> to the shape of the destination: a source of the same length is
  copied, a source of length one fills the whole destination slice, and every other
  length raises \<open>ValueError\<close>.
\<close>

definition slice_assign :: "'a list \<Rightarrow> int \<Rightarrow> int \<Rightarrow> 'a list \<Rightarrow> error + 'a list" where
  "slice_assign dst start stop src =
     (let lo = adjust_index (length dst) start;
          hi = adjust_index (length dst) stop;
          m = hi - lo
      in if length src = m then Inr (take lo dst @ src @ drop (lo + m) dst)
         else if length src = 1 then Inr (take lo dst @ replicate m (hd src) @ drop (lo + m) dst)
         else Inl ValueError)"

text \<open>\<open>np.zeros(n)\<close> raises \<open>ValueError\<close> on a negative dimension.\<close>

definition np_zeros :: "int \<Rightarrow> error + fl list" where
  "np_zeros n = (if n < 0 then Inl ValueError else Inr (replicate (nat n) (Fin 0)))"

subsection \<open>write: the extraction of segments\<close>

text \<open>
  \<^verbatim>\<open>
      total_length = sum([end - start for start, end in segments])
      new_sample = np.zeros(total_length)
      idx = 0
      for start, end in segments:
          length = end - start
          new_sample[idx:idx+length] = sample[start:end]
          idx += length
  \<close>
  \<open>copy_segments\<close> is the loop, with \<open>idx\<close> and \<open>new_sample\<close> as its state.
\<close>

fun copy_segments :: "fl list \<Rightarrow> (int \<times> int) list \<Rightarrow> int \<Rightarrow> fl list \<Rightarrow> error + fl list" where
  "copy_segments sample [] idx new_sample = Inr new_sample"
| "copy_segments sample ((start, stop) # segments) idx new_sample =
     (let len = stop - start in
      case slice_assign new_sample idx (idx + len) (py_slice sample start stop) of
        Inl e \<Rightarrow> Inl e
      | Inr new_sample' \<Rightarrow> copy_segments sample segments (idx + len) new_sample')"

definition extract_segments :: "fl list \<Rightarrow> (int \<times> int) list \<Rightarrow> error + fl list" where
  "extract_segments sample segments =
     (let total_length = sum_list (map (\<lambda>(start, stop). stop - start) segments) in
      case np_zeros total_length of
        Inl e \<Rightarrow> Inl e
      | Inr new_sample \<Rightarrow> copy_segments sample segments 0 new_sample)"

subsection \<open>write: paths, conversion to 16 bits, effects\<close>

text \<open>\<open>os.path.basename\<close> and \<open>os.path.join\<close> (of two components) on POSIX.\<close>

definition basename :: "string \<Rightarrow> string" where
  "basename p = rev (takeWhile (\<lambda>c. c \<noteq> CHR ''/'') (rev p))"

definition path_join :: "string \<Rightarrow> string \<Rightarrow> string" where
  "path_join a b =
     (if b \<noteq> [] \<and> hd b = CHR ''/'' then b
      else if a = [] \<or> last a = CHR ''/'' then a @ b
      else a @ ''/'' @ b)"

text \<open>
  \<open>astype('int16')\<close> is the conversion of C from a float to a 16-bit signed integer. It
  drops the fractional part (rounds toward zero) when the result fits in 16 bits. For
  every other value (too large, infinite, \<open>nan\<close>) C leaves the result undefined and
  numpy returns what the processor's conversion instruction gives: that result is the
  parameter \<open>out_of_range\<close>.
\<close>

definition trunc :: "real \<Rightarrow> int" where
  "trunc r = (if 0 \<le> r then \<lfloor>r\<rfloor> else \<lceil>r\<rceil>)"

definition astype_int16 :: "(fl \<Rightarrow> 16 word) \<Rightarrow> fl \<Rightarrow> 16 word" where
  "astype_int16 out_of_range x =
     (case x of
        Fin r \<Rightarrow> if - 32768 \<le> trunc r \<and> trunc r \<le> 32767 then word_of_int (trunc r)
                 else out_of_range x
      | _ \<Rightarrow> out_of_range x)"

text \<open>
  What \<open>write\<close> does to the world outside is a list of effects, in the order they happen.
  The arrays live in a store: an address is an index into a list of arrays, and a new
  array is put at the end. The arrays are arrays of doubles (\<open>float64\<close>, the type of
  \<open>np.zeros\<close> and of numpy's arrays of Python floats); how the steps round on an array
  of another float type depends on the version of numpy and is not modelled. The
  caller's array is passed by its address, as Python passes the reference; the address
  of an array that exists is below the length of the store. \<open>dB\<close> is a double.
\<close>

datatype effect =
    MakeDirs string                        \<comment> \<open>\<open>os.makedirs(output_dir)\<close>\<close>
  | WavWrite string int "16 word list"     \<comment> \<open>\<open>wav.write(path, rate, data)\<close>\<close>

datatype outcome = Returned | Raised error

type_synonym store = "fl list list"

subsection \<open>write\<close>

text \<open>
  \<^verbatim>\<open>
  def write(path, rate, sample, dB=30.0, output_dir="", segments=[]):
      if segments:
          ... (the extraction above)
          sample = new_sample
      if output_dir:
          if not os.path.exists(output_dir):
              os.makedirs(output_dir)
          filename = os.path.basename(path)
          path = os.path.join(output_dir, filename)
      max_sample = np.max(sample)
      desired_dB_log = 10**(dB / 10)
      sample *= desired_dB_log / max_sample
      wav.write(path, rate, sample.astype('int16'))
  \<close>
  \<open>sample\<close> is the address of the caller's array in the store \<open>h\<close>. With segments the
  local name \<open>sample\<close> is rebound to a new array; without, it keeps naming the caller's
  array, and \<open>*=\<close> multiplies in place the array that \<open>sample\<close> names. \<open>path_exists\<close> is
  \<open>os.path.exists\<close> on the file system as it is when \<open>write\<close> is called. The result is the
  outcome, the store afterwards and the effects. \<open>os.makedirs\<close> and \<open>wav.write\<close> are
  taken to succeed. The function is named \<open>write_wav\<close> here, \<open>write\<close> being a command
  of Isabelle.
\<close>

definition extract_stage :: "store \<Rightarrow> nat \<Rightarrow> (int \<times> int) list \<Rightarrow> error + store \<times> nat" where
  \<comment> \<open>lines 50 to 58: the store and the array that \<open>sample\<close> names afterwards\<close>
  "extract_stage h sample segments =
     (if segments \<noteq> []
      then (case extract_segments (h ! sample) segments of
              Inl e \<Rightarrow> Inl e
            | Inr new_sample \<Rightarrow> Inr (h @ [new_sample], length h))
      else Inr (h, sample))"

definition scale_stage :: "store \<Rightarrow> nat \<Rightarrow> real \<Rightarrow> error + store" where
  \<comment> \<open>lines 66 to 68: the array that \<open>sample\<close> names is multiplied in place\<close>
  "scale_stage h sample dB =
     (case np_max (h ! sample) of
        Inl e \<Rightarrow> Inl e
      | Inr max_sample \<Rightarrow>
          (case py_pow10 (d_div (Fin dB) (Fin 10)) of
             Inl e \<Rightarrow> Inl e
           | Inr desired_dB_log \<Rightarrow>
               (let gain = d_div desired_dB_log max_sample
                in Inr (h[sample := map (\<lambda>x. d_mul x gain) (h ! sample)]))))"

definition write_wav ::
  "(fl \<Rightarrow> 16 word) \<Rightarrow> (string \<Rightarrow> bool) \<Rightarrow>
   string \<Rightarrow> int \<Rightarrow> nat \<Rightarrow> real \<Rightarrow> string \<Rightarrow> (int \<times> int) list \<Rightarrow>
   store \<Rightarrow> outcome \<times> store \<times> effect list" where
  "write_wav out_of_range path_exists path rate sample dB output_dir segments h =
     (case extract_stage h sample segments of
        Inl e \<Rightarrow> (Raised e, h, [])
      | Inr (h1, sample1) \<Rightarrow>
          (let made = (if output_dir \<noteq> [] \<and> \<not> path_exists output_dir
                       then [MakeDirs output_dir] else []);
               path1 = (if output_dir \<noteq> [] then path_join output_dir (basename path) else path)
           in case scale_stage h1 sample1 dB of
                Inl e \<Rightarrow> (Raised e, h1, made)
              | Inr h2 \<Rightarrow>
                  (Returned, h2,
                   made @ [WavWrite path1 rate (map (astype_int16 out_of_range) (h2 ! sample1))])))"

subsection \<open>Walker\<close>

text \<open>
  The file system under the given location is a tree: a file, or a directory with its
  entries in the order \<open>os.listdir\<close> returns them. Symbolic links are not modelled.
\<close>

datatype node = File | Dir "(string \<times> node) list"

text \<open>\<open>s.endswith(suf)\<close> of Python strings: it compares characters as they are.\<close>

definition endswith :: "string \<Rightarrow> string \<Rightarrow> bool" where
  "endswith s suf \<longleftrightarrow> length suf \<le> length s \<and> drop (length s - length suf) s = suf"

text \<open>
  \<open>os.walk(top)\<close>, top down: for a directory it yields the triple of the directory's
  path, the names of its subdirectories and the names of its other entries, then walks
  each subdirectory in turn. On a file (or a missing path) \<open>os.listdir\<close> fails, the
  failure is swallowed and nothing is yielded.
\<close>

fun os_walk :: "string \<Rightarrow> node \<Rightarrow> (string \<times> string list \<times> string list) list"
  and walk_dirs :: "string \<Rightarrow> (string \<times> node) list \<Rightarrow> (string \<times> string list \<times> string list) list"
where
  "os_walk topdir File = []"
| "os_walk topdir (Dir entries) =
     (topdir,
      map fst (filter (\<lambda>(name, n). n \<noteq> File) entries),
      map fst (filter (\<lambda>(name, n). n = File) entries))
     # walk_dirs topdir entries"
| "walk_dirs topdir [] = []"
| "walk_dirs topdir ((name, n) # entries) =
     (if n \<noteq> File then os_walk (path_join topdir name) n else []) @ walk_dirs topdir entries"

text \<open>
  \<^verbatim>\<open>
  def __init__(self, recordings_location):
      self._recordings = []
      if os.path.isfile(recordings_location) and recordings_location.endswith('.wav'):
          self._recordings.append(recordings_location)
      for dirpath, dirnames, filenames in os.walk(recordings_location):
          for filename in [f for f in filenames if f.endswith('.wav')]:
              self._recordings.append(os.path.join(dirpath, filename))
  \<close>
  \<open>at_location\<close> is what the file system holds at \<open>recordings_location\<close>, if anything.
\<close>

record walker =
  recordings :: "string list"

definition append_wavs :: "string list \<Rightarrow> string \<times> string list \<times> string list \<Rightarrow> string list" where
  "append_wavs recs triple =
     (case triple of (dirpath, dirnames, filenames) \<Rightarrow>
        foldl (\<lambda>recs filename. recs @ [path_join dirpath filename]) recs
          (filter (\<lambda>f. endswith f ''.wav'') filenames))"

definition Walker_init :: "string \<Rightarrow> node option \<Rightarrow> walker" where
  "Walker_init recordings_location at_location =
     (let recs0 = (if at_location = Some File \<and> endswith recordings_location ''.wav''
                   then [recordings_location] else []);
          triples = (case at_location of None \<Rightarrow> [] | Some n \<Rightarrow> os_walk recordings_location n)
      in \<lparr> recordings = foldl append_wavs recs0 triples \<rparr>)"

text \<open>
  After construction. \<open>Walker_init\<close> gives the entries as they are when \<open>__init__\<close>
  returns. A list of Python is an object, and \<open>_recordings\<close> holds a reference to it. The
  lists live in a store, by address: a walker object holds the address of its list, and
  constructing a walker puts the list that \<open>__init__\<close> builds at a new address.
\<close>

type_synonym lists = "string list list"

record walker_object =
  recordings_at :: nat

definition new_Walker :: "string \<Rightarrow> node option \<Rightarrow> lists \<Rightarrow> walker_object \<times> lists" where
  "new_Walker recordings_location at_location ls =
     (\<lparr> recordings_at = length ls \<rparr>,
      ls @ [recordings (Walker_init recordings_location at_location)])"

text \<open>
  \<^verbatim>\<open>
  def get_recordings_list(self):
      return self._recordings

  def count(self):
      return len(self._recordings)
  \<close>
  \<open>get_recordings_list\<close> returns the reference itself, not a copy of the list. \<open>read_wave\<close>
  is a generator: it decodes the recordings in order and stops at the first one the
  codec fails on; the model gives what a full iteration yields, on the list as it is
  when \<open>read_wave\<close> is called.
\<close>

fun read_all :: "(string \<Rightarrow> error + int \<times> int list) \<Rightarrow> string list \<Rightarrow> (error + int \<times> int list \<times> string) list" where
  "read_all wav_read [] = []"
| "read_all wav_read (name # names) =
     (case wav_read name of
        Inl e \<Rightarrow> [Inl e]
      | Inr (samplerate, sample) \<Rightarrow> Inr (samplerate, sample, name) # read_all wav_read names)"

definition read_wave ::
  "(string \<Rightarrow> error + int \<times> int list) \<Rightarrow> walker_object \<Rightarrow> lists \<Rightarrow>
   (error + int \<times> int list \<times> string) list \<times> lists" where
  "read_wave wav_read self ls = (read_all wav_read (ls ! recordings_at self), ls)"

definition get_recordings_list :: "walker_object \<Rightarrow> lists \<Rightarrow> nat \<times> lists" where
  "get_recordings_list self ls = (recordings_at self, ls)"

definition count :: "walker_object \<Rightarrow> lists \<Rightarrow> nat \<times> lists" where
  "count self ls = (length (ls ! recordings_at self), ls)"

text \<open>
  A client of a walker calls its methods in any order, any number of times. It can also
  change a list it holds a reference to: \<open>Append a name\<close> is \<open>a.append(name)\<close> on the list at
  the address \<open>a\<close>. The reply to \<open>get_recordings_list\<close> is recorded as the reference returned
  together with the list it refers to at that moment.
\<close>

datatype call = GetRecordingsList | Count | ReadWave | Append nat string

datatype reply =
    Listing nat "string list"
  | Number nat
  | Waves "(error + int \<times> int list \<times> string) list"
  | NoValue

fun call_method ::
  "(string \<Rightarrow> error + int \<times> int list) \<Rightarrow> walker_object \<Rightarrow> lists \<Rightarrow> call \<Rightarrow> reply \<times> lists" where
  "call_method wav_read self ls GetRecordingsList =
     (case get_recordings_list self ls of (a, ls') \<Rightarrow> (Listing a (ls' ! a), ls'))"
| "call_method wav_read self ls Count = (case count self ls of (n, ls') \<Rightarrow> (Number n, ls'))"
| "call_method wav_read self ls ReadWave =
     (case read_wave wav_read self ls of (r, ls') \<Rightarrow> (Waves r, ls'))"
| "call_method wav_read self ls (Append a name) = (NoValue, ls[a := ls ! a @ [name]])"

fun run_calls ::
  "(string \<Rightarrow> error + int \<times> int list) \<Rightarrow> walker_object \<Rightarrow> lists \<Rightarrow> call list \<Rightarrow> reply list \<times> lists" where
  "run_calls wav_read self ls [] = ([], ls)"
| "run_calls wav_read self ls (c # cs) =
     (case call_method wav_read self ls c of
        (r, ls') \<Rightarrow> (case run_calls wav_read self ls' cs of (rs, ls'') \<Rightarrow> (r # rs, ls'')))"

subsection \<open>The files under a directory\<close>

text \<open>
  What the walker is to find, written without the traversal: \<open>file_under dirpath n p name\<close>
  holds when the tree \<open>n\<close> at the path \<open>dirpath\<close> has, at any depth, a file called \<open>name\<close>
  whose path, joined from \<open>dirpath\<close> down, is \<open>p\<close>.
\<close>

inductive file_under :: "string \<Rightarrow> node \<Rightarrow> string \<Rightarrow> string \<Rightarrow> bool" where
  here: "(name, File) \<in> set entries \<Longrightarrow> file_under dirpath (Dir entries) (path_join dirpath name) name"
| below: "(d, Dir sub) \<in> set entries \<Longrightarrow> file_under (path_join dirpath d) (Dir sub) p name
          \<Longrightarrow> file_under dirpath (Dir entries) p name"

code_pred file_under .

text \<open>The paths that the inner loop of \<open>__init__\<close> appends for one triple of \<open>os.walk\<close>.\<close>

definition wavs_of :: "string \<times> string list \<times> string list \<Rightarrow> string list" where
  "wavs_of triple = (case triple of (dirpath, dirnames, filenames) \<Rightarrow>
      map (path_join dirpath) (filter (\<lambda>f. endswith f ''.wav'') filenames))"

subsection \<open>Collaborators of the examples\<close>

text \<open>
  The examples below run the code with these collaborators: a codec that decodes every
  path to the same buffer, a file system on which no path exists yet, and a processor
  whose conversion gives 0 for every value that does not fit in 16 bits.

  \<open>via_int32\<close> is the conversion of the common processors: the double is converted to a
  32-bit integer (\<open>cvttsd2si\<close> on x86-64, \<open>fcvtzs\<close> on ARM64), which truncates when the
  integer part fits in 32 bits, and the low 16 bits are kept. What the instruction gives
  for any other value is \<open>beyond\<close>: on x86-64 it is the bit pattern \<open>0x80000000\<close>.
\<close>

definition codec_of :: "int \<Rightarrow> int list \<Rightarrow> string \<Rightarrow> error + int \<times> int list" where
  "codec_of rate raw path = Inr (rate, raw)"

definition nothing_exists :: "string \<Rightarrow> bool" where
  "nothing_exists p = False"

definition cast_zero :: "fl \<Rightarrow> 16 word" where
  "cast_zero x = 0"



section \<open>Properties\<close>

subsection \<open>The maximum of finite samples\<close>

lemma foldl_fl_maximum_Fin:
  "foldl fl_maximum (Fin a) (map Fin rs) = Fin (Max (insert a (set rs)))"
proof (induction rs arbitrary: a)
  case Nil
  show ?case by simp
next
  case (Cons r rs)
  have "Max (insert (max a r) (set rs)) = Max (insert a (insert r (set rs)))"
    by (cases "set rs = {}") (simp_all add: max.assoc)
  with Cons show ?case by simp
qed

lemma np_max_Fin:
  "rs \<noteq> [] \<Longrightarrow> np_max (map Fin rs) = Inr (Fin (Max (set rs)))"
  by (cases rs) (simp_all add: np_max_def foldl_fl_maximum_Fin)

subsection \<open>Normalization in read\<close>

text \<open>
  C1. When the decoded buffer has a sample that is not zero, \<open>read\<close> returns the same
  sample rate and every sample divided by the buffer's largest absolute value, and the
  largest absolute value of the returned samples is 1. (Arithmetic on finite values is
  exact in this model, so the equality is exact.)
\<close>

theorem read_normalizes:
  assumes dec: "wav_read path = Inr (rate, raw)"
      and loud: "\<exists>x\<in>set raw. x \<noteq> 0"
  shows "\<exists>peak ys. peak = Max ((\<lambda>x. \<bar>real_of_int x\<bar>) ` set raw)
           \<and> ys = map (\<lambda>x. real_of_int x / peak) raw
           \<and> read wav_read path = Inr (rate, map Fin ys)
           \<and> Max ((\<lambda>y. \<bar>y\<bar>) ` set ys) = 1"
proof -
  define peak where "peak = Max ((\<lambda>x. \<bar>real_of_int x\<bar>) ` set raw)"
  define ys where "ys = map (\<lambda>x. real_of_int x / peak) raw"
  from loud have ne: "raw \<noteq> []" by auto
  have fin: "finite ((\<lambda>x. \<bar>real_of_int x\<bar>) ` set raw)" by simp
  have ub: "\<bar>real_of_int x\<bar> \<le> peak" if "x \<in> set raw" for x
    unfolding peak_def using that by (intro Max_ge) auto
  from loud obtain z where z: "z \<in> set raw" "z \<noteq> 0" by blast
  have "0 < \<bar>real_of_int z\<bar>" using z by simp
  also have "\<dots> \<le> peak" using ub z by blast
  finally have pos: "0 < peak" .
  have "peak \<in> (\<lambda>x. \<bar>real_of_int x\<bar>) ` set raw"
    unfolding peak_def using ne by (intro Max_in) auto
  then obtain m where m: "m \<in> set raw" "peak = \<bar>real_of_int m\<bar>" by blast
  have "np_max (map Fin (map (\<lambda>x. \<bar>real_of_int x\<bar>) raw)) = Inr (Fin peak)"
    unfolding peak_def using ne by (subst np_max_Fin) simp_all
  then have mx: "np_max (map (\<lambda>x. Fin \<bar>real_of_int x\<bar>) raw) = Inr (Fin peak)"
    by (simp add: o_def)
  have rd: "read wav_read path = Inr (rate, map Fin ys)"
    using pos by (simp add: read_def dec mx ys_def o_def)
  have le1: "\<bar>y\<bar> \<le> 1" if "y \<in> set ys" for y
  proof -
    from that obtain x where "x \<in> set raw" "y = real_of_int x / peak"
      by (auto simp: ys_def)
    then have "\<bar>y\<bar> = \<bar>real_of_int x\<bar> / peak" "\<bar>real_of_int x\<bar> \<le> peak"
      using pos ub by simp_all
    then show ?thesis using pos by (simp add: divide_le_eq_1)
  qed
  have "\<bar>real_of_int m / peak\<bar> = \<bar>real_of_int m\<bar> / peak"
    using pos by simp
  then have "\<bar>real_of_int m / peak\<bar> = 1" using m(2) pos by simp
  moreover have "real_of_int m / peak \<in> set ys" using m by (auto simp: ys_def)
  ultimately have in1: "1 \<in> (\<lambda>y. \<bar>y\<bar>) ` set ys" by force
  have "Max ((\<lambda>y. \<bar>y\<bar>) ` set ys) = 1"
    by (rule Max_eqI) (use le1 in1 in auto)
  with rd show ?thesis unfolding peak_def ys_def by blast
qed

theorem read_normalizes_witness:
  "read (codec_of 8000 [1, - 2, 0]) ''a.wav'' = Inr (8000, [Fin (1 / 2), Fin (- 1), Fin 0])
   \<and> Max ((\<lambda>y. \<bar>y\<bar>) ` set [1 / 2, - 1, 0 :: real]) = 1"
  using read_normalizes [of "codec_of 8000 [1, - 2, 0]" "''a.wav''" 8000 "[1, - 2, 0]"]
  by (simp add: codec_of_def)

subsection \<open>Extraction of segments\<close>

lemma adjust_index_in_range:
  "0 \<le> i \<Longrightarrow> i \<le> int n \<Longrightarrow> adjust_index n i = nat i"
  by (auto simp: adjust_index_def)

lemma py_slice_valid:
  assumes "0 \<le> start" "start \<le> stop" "stop \<le> int (length xs)"
  shows "py_slice xs start stop = take (nat (stop - start)) (drop (nat start) xs)"
    and "length (py_slice xs start stop) = nat (stop - start)"
proof -
  have lo: "adjust_index (length xs) start = nat start"
    using assms by (intro adjust_index_in_range) auto
  have hi: "adjust_index (length xs) stop = nat stop"
    using assms by (intro adjust_index_in_range) auto
  have d: "nat stop - nat start = nat (stop - start)" using assms by linarith
  show "py_slice xs start stop = take (nat (stop - start)) (drop (nat start) xs)"
    by (simp add: py_slice_def lo hi d)
  then show "length (py_slice xs start stop) = nat (stop - start)"
    using assms by simp
qed

lemma slice_assign_middle:
  assumes "length src = length mid"
  shows "slice_assign (pre @ mid @ post) (int (length pre)) (int (length pre) + int (length mid)) src
         = Inr (pre @ src @ post)"
proof -
  let ?n = "length (pre @ mid @ post)"
  have lo: "adjust_index ?n (int (length pre)) = length pre"
    by (subst adjust_index_in_range) simp_all
  have hi: "adjust_index ?n (int (length pre) + int (length mid)) = length pre + length mid"
    by (subst adjust_index_in_range) simp_all
  show ?thesis
    unfolding slice_assign_def lo hi Let_def using assms by simp
qed

lemma copy_segments_valid:
  assumes "\<forall>(start, stop)\<in>set segments. 0 \<le> start \<and> start \<le> stop \<and> stop \<le> int (length sample)"
  shows "copy_segments sample segments (int (length pre))
           (pre @ replicate (nat (\<Sum>(start, stop)\<leftarrow>segments. stop - start)) z)
         = Inr (pre @ concat (map (\<lambda>(start, stop). py_slice sample start stop) segments))"
  using assms
proof (induction segments arbitrary: pre)
  case Nil
  show ?case by simp
next
  case (Cons seg segments)
  obtain start stop where seg: "seg = (start, stop)" by (cases seg)
  from Cons.prems seg have v: "0 \<le> start" "start \<le> stop" "stop \<le> int (length sample)"
    and rest: "\<forall>(start, stop)\<in>set segments. 0 \<le> start \<and> start \<le> stop \<and> stop \<le> int (length sample)"
    by auto
  let ?src = "py_slice sample start stop"
  let ?k = "nat (stop - start)"
  let ?r = "nat (\<Sum>(start, stop)\<leftarrow>segments. stop - start)"
  have len: "length ?src = ?k" using v by (rule py_slice_valid)
  have nonneg: "0 \<le> (\<Sum>(start, stop)\<leftarrow>segments. stop - start)"
    using rest by (intro sum_list_nonneg) auto
  have split: "replicate (nat (\<Sum>(start, stop)\<leftarrow>seg # segments. stop - start)) z
               = replicate ?k z @ replicate ?r z"
    using v nonneg by (simp add: seg nat_add_distrib replicate_add)
  have k: "int ?k = stop - start" using v by simp
  have step: "slice_assign (pre @ replicate ?k z @ replicate ?r z)
                 (int (length pre)) (int (length pre) + (stop - start)) ?src
              = Inr (pre @ ?src @ replicate ?r z)"
    using slice_assign_middle [of ?src "replicate ?k z" pre "replicate ?r z"] len k by simp
  have idx: "int (length pre) + (stop - start) = int (length (pre @ ?src))"
    using len k by simp
  have "copy_segments sample ((start, stop) # segments) (int (length pre))
          (pre @ replicate ?k z @ replicate ?r z)
        = copy_segments sample segments (int (length pre) + (stop - start)) (pre @ ?src @ replicate ?r z)"
    by (simp only: copy_segments.simps Let_def step sum.case)
  also have "\<dots> = copy_segments sample segments (int (length (pre @ ?src))) ((pre @ ?src) @ replicate ?r z)"
    by (simp only: idx append_assoc)
  also have "\<dots> = Inr ((pre @ ?src) @ concat (map (\<lambda>(start, stop). py_slice sample start stop) segments))"
    by (rule Cons.IH [OF rest])
  finally have "copy_segments sample ((start, stop) # segments) (int (length pre))
          (pre @ replicate ?k z @ replicate ?r z)
        = Inr ((pre @ ?src) @ concat (map (\<lambda>(start, stop). py_slice sample start stop) segments))" .
  then show ?case unfolding split by (simp add: seg)
qed

lemma length_concat_slices:
  assumes "\<forall>(start, stop)\<in>set segments. 0 \<le> start \<and> start \<le> stop \<and> stop \<le> int (length sample)"
  shows "int (length (concat (map (\<lambda>(start, stop). py_slice sample start stop) segments)))
         = (\<Sum>(start, stop)\<leftarrow>segments. stop - start)"
  using assms
proof (induction segments)
  case Nil
  show ?case by simp
next
  case (Cons seg segments)
  obtain start stop where seg: "seg = (start, stop)" by (cases seg)
  from Cons.prems seg have v: "0 \<le> start" "start \<le> stop" "stop \<le> int (length sample)" by auto
  have "length (py_slice sample start stop) = nat (stop - start)" using v by (rule py_slice_valid)
  with Cons v show ?case by (simp add: seg)
qed

lemma map_slices_valid:
  assumes "\<forall>(start, stop)\<in>set segments. 0 \<le> start \<and> start \<le> stop \<and> stop \<le> int (length sample)"
  shows "map (\<lambda>(start, stop). py_slice sample start stop) segments
         = map (\<lambda>(start, stop). take (nat (stop - start)) (drop (nat start) sample)) segments"
  using assms by (intro map_cong) (auto simp: py_slice_valid)

lemma extract_segments_valid:
  assumes "\<forall>(start, stop)\<in>set segments. 0 \<le> start \<and> start \<le> stop \<and> stop \<le> int (length sample)"
  shows "extract_segments sample segments
         = Inr (concat (map (\<lambda>(start, stop). py_slice sample start stop) segments))"
proof -
  have "0 \<le> (\<Sum>(start, stop)\<leftarrow>segments. stop - start)"
    using assms by (intro sum_list_nonneg) auto
  then show ?thesis
    using copy_segments_valid [OF assms, of "[]" "Fin 0"]
    by (simp add: extract_segments_def np_zeros_def)
qed

text \<open>
  C3. For a store \<open>h\<close>, the caller's array \<open>h ! sample\<close> and a non-empty list of valid
  segments (\<open>0 \<le> start \<le> stop \<le> length\<close>), the extraction step of \<open>write\<close> puts a new
  array in the store: the slices \<open>sample[start:stop]\<close> one after the other in list order,
  of length exactly the sum of \<open>stop - start\<close>. The local name \<open>sample\<close> then names the
  new array.
\<close>

theorem extract_stage_concatenates:
  assumes "segments \<noteq> []"
      and "\<forall>(start, stop)\<in>set segments. 0 \<le> start \<and> start \<le> stop \<and> stop \<le> int (length (h ! sample))"
  shows "\<exists>new_sample.
           extract_stage h sample segments = Inr (h @ [new_sample], length h)
         \<and> new_sample = concat (map (\<lambda>(start, stop). take (nat (stop - start)) (drop (nat start) (h ! sample))) segments)
         \<and> int (length new_sample) = (\<Sum>(start, stop)\<leftarrow>segments. stop - start)"
  using assms extract_segments_valid [OF assms(2)] length_concat_slices [OF assms(2)]
    map_slices_valid [OF assms(2)]
  by (simp add: extract_stage_def)

theorem extract_stage_concatenates_witness:
  "extract_stage [[Fin 10, Fin 11, Fin 12, Fin 13, Fin 14, Fin 15, Fin 16, Fin 17]] 0 [(0, 3), (5, 8)]
   = Inr ([[Fin 10, Fin 11, Fin 12, Fin 13, Fin 14, Fin 15, Fin 16, Fin 17],
           [Fin 10, Fin 11, Fin 12, Fin 15, Fin 16, Fin 17]], 1)"
  using extract_stage_concatenates
    [of "[(0, 3), (5, 8)]" "[[Fin 10, Fin 11, Fin 12, Fin 13, Fin 14, Fin 15, Fin 16, Fin 17]]" 0]
  by simp

text \<open>
  C6. With an empty list of segments the extraction step does nothing: the store is
  unchanged and \<open>sample\<close> still names the caller's array, which goes on to the next step
  as it is.
\<close>

theorem extract_stage_empty: "extract_stage h sample [] = Inr (h, sample)"
  by (simp add: extract_stage_def)

subsection \<open>Rounding to doubles\<close>

text \<open>
  Rounding is exact on every number that is a double, it is within the relative error
  \<open>2 powr (- 53)\<close> in the normal range, and it overflows from \<open>2 ^ 1024\<close> on.
\<close>

lemma round_even_of_int: "round_even (of_int n) = n"
  by (simp add: round_even_def)

lemma round_even_close: "\<bar>of_int (round_even y) - y\<bar> \<le> 1 / 2"
  unfolding round_even_def Let_def by (auto; linarith)

lemma round_even_nonneg: "0 \<le> y \<Longrightarrow> 0 \<le> round_even y"
  unfolding round_even_def Let_def by (auto simp: zero_le_floor intro: add_nonneg_nonneg)

lemma floor_log2_bounds:
  assumes "x \<noteq> 0"
  shows "2 powr of_int \<lfloor>log 2 \<bar>x\<bar>\<rfloor> \<le> \<bar>x\<bar>" and "\<bar>x\<bar> < 2 powr (of_int \<lfloor>log 2 \<bar>x\<bar>\<rfloor> + 1)"
proof -
  have pos: "0 < \<bar>x\<bar>" using assms by simp
  have "2 powr of_int \<lfloor>log 2 \<bar>x\<bar>\<rfloor> \<le> 2 powr log 2 \<bar>x\<bar>"
    by (intro powr_mono) simp_all
  then show "2 powr of_int \<lfloor>log 2 \<bar>x\<bar>\<rfloor> \<le> \<bar>x\<bar>" using pos by simp
  have "2 powr log 2 \<bar>x\<bar> < 2 powr (of_int \<lfloor>log 2 \<bar>x\<bar>\<rfloor> + 1)"
    by (intro powr_less_mono) simp_all
  then show "\<bar>x\<bar> < 2 powr (of_int \<lfloor>log 2 \<bar>x\<bar>\<rfloor> + 1)" using pos by simp
qed

lemma nearest_exact:
  assumes x: "x = of_int m * 2 powr of_int k"
      and m: "\<bar>m\<bar> < 2 ^ 53" and k: "- 1074 \<le> k"
  shows "nearest x = x"
proof (cases "x = 0")
  case True
  then show ?thesis by (simp add: nearest_def)
next
  case False
  define e where "e = \<lfloor>log 2 \<bar>x\<bar>\<rfloor>"
  define q where "q = max (e - 52) (- 1074)"
  have "\<bar>x\<bar> = \<bar>of_int m\<bar> * 2 powr of_int k" by (simp add: x abs_mult)
  also have "\<dots> < 2 ^ 53 * 2 powr of_int k"
  proof (rule mult_strict_right_mono)
    have "real_of_int \<bar>m\<bar> < real_of_int (2 ^ 53)" using m by (simp only: of_int_less_iff)
    then show "\<bar>real_of_int m\<bar> < 2 ^ 53" by simp
  qed simp
  also have "\<dots> = 2 powr (53 + of_int k)" by (simp add: powr_add)
  finally have ub: "\<bar>x\<bar> < 2 powr (53 + of_int k)" .
  have "2 powr of_int e \<le> \<bar>x\<bar>" unfolding e_def using False by (rule floor_log2_bounds)
  from this ub have "(2::real) powr of_int e < 2 powr (53 + of_int k)" by (rule le_less_trans)
  then have "real_of_int e < 53 + of_int k" by simp
  then have "e < 53 + k" by linarith
  then have qk: "q \<le> k" using k by (simp add: q_def)
  have "x / 2 powr of_int q = of_int m * 2 powr (of_int k - of_int q)"
    by (simp add: x powr_diff)
  also have "2 powr (of_int k - of_int q) = 2 powr real (nat (k - q))"
    using qk by simp
  also have "\<dots> = 2 ^ nat (k - q)" by (simp add: powr_realpow)
  finally have y: "x / 2 powr of_int q = of_int (m * 2 ^ nat (k - q))" by simp
  have c: "of_int (round_even (x / 2 powr of_int q)) * 2 powr of_int q = x"
    unfolding y round_even_of_int unfolding y [symmetric] by simp
  show ?thesis
    using False by (simp add: nearest_def Let_def e_def [symmetric] q_def [symmetric] c)
qed

lemma nearest_close:
  assumes lo: "2 powr (- 1022) \<le> \<bar>x\<bar>"
  shows "\<bar>nearest x - x\<bar> \<le> \<bar>x\<bar> * 2 powr (- 53)"
proof -
  have nz: "x \<noteq> 0" using lo by auto
  define e where "e = \<lfloor>log 2 \<bar>x\<bar>\<rfloor>"
  define q where "q = max (e - 52) (- 1074)"
  have c: "nearest x = real_of_int (round_even (x / 2 powr of_int q)) * 2 powr of_int q"
    using nz by (simp add: nearest_def Let_def e_def [symmetric] q_def [symmetric])
  have e_lo: "2 powr of_int e \<le> \<bar>x\<bar>" unfolding e_def using nz by (rule floor_log2_bounds)
  have "\<bar>x\<bar> < 2 powr (of_int e + 1)" unfolding e_def using nz by (rule floor_log2_bounds)
  with lo have "(2::real) powr (- 1022) < 2 powr (of_int e + 1)" by (rule le_less_trans)
  then have "- 1022 < real_of_int e + 1" by simp
  then have "- 1022 \<le> e" by linarith
  then have q: "q = e - 52" by (simp add: q_def)
  have "nearest x - x = (of_int (round_even (x / 2 powr of_int q)) - x / 2 powr of_int q) * 2 powr of_int q"
    by (simp add: c algebra_simps)
  then have "\<bar>nearest x - x\<bar> = \<bar>of_int (round_even (x / 2 powr of_int q)) - x / 2 powr of_int q\<bar> * 2 powr of_int q"
    by (simp add: abs_mult)
  also have "\<dots> \<le> 1 / 2 * 2 powr of_int q"
    by (intro mult_right_mono round_even_close) simp
  also have "\<dots> = 2 powr of_int e * 2 powr (- 53)"
    by (simp add: q powr_diff powr_minus powr_add [symmetric] field_simps)
  also have "\<dots> \<le> \<bar>x\<bar> * 2 powr (- 53)"
    using e_lo by (intro mult_right_mono) simp_all
  finally show ?thesis .
qed

lemma nearest_nonneg: "0 \<le> x \<Longrightarrow> 0 \<le> nearest x"
  by (simp add: nearest_def Let_def round_even_nonneg)

lemma round64_exact:
  assumes "x = of_int m * 2 powr of_int k" "\<bar>m\<bar> < 2 ^ 53" "- 1074 \<le> k" "\<bar>x\<bar> < 2 ^ 1024"
  shows "round64 x = Fin x"
  using nearest_exact [OF assms(1-3)] assms(4) by (simp add: round64_def)

lemma round64_accurate:
  assumes lo: "2 powr (- 1022) \<le> \<bar>x\<bar>" and hi: "\<bar>x\<bar> \<le> 2 ^ 1023"
  shows "\<exists>c. round64 x = Fin c \<and> \<bar>c - x\<bar> \<le> \<bar>x\<bar> * 2 powr (- 53)"
proof -
  have nz: "x \<noteq> 0" using lo by auto
  have close: "\<bar>nearest x - x\<bar> \<le> \<bar>x\<bar> * 2 powr (- 53)" using lo by (rule nearest_close)
  have "\<bar>nearest x\<bar> \<le> \<bar>x\<bar> + \<bar>nearest x - x\<bar>" by simp
  also have "\<dots> \<le> \<bar>x\<bar> + \<bar>x\<bar> * 2 powr (- 53)" using close by simp
  also have "\<dots> < \<bar>x\<bar> + \<bar>x\<bar>"
  proof -
    have "(2::real) powr (- 53) < 2 powr 0" by (intro powr_less_mono) simp_all
    then have "\<bar>x\<bar> * 2 powr (- 53) < \<bar>x\<bar> * 1" using nz by (intro mult_strict_left_mono) simp_all
    then show ?thesis by simp
  qed
  also have "\<dots> \<le> 2 ^ 1024" using hi by simp
  finally have "\<not> 2 ^ 1024 \<le> \<bar>nearest x\<bar>" by simp
  then have "round64 x = Fin (nearest x)" by (simp add: round64_def)
  with close show ?thesis by blast
qed

lemma round64_overflow:
  assumes "2 ^ 1025 \<le> x"
  shows "round64 x = PInf"
proof -
  have pos: "0 < x" using assms by (rule less_le_trans [rotated]) simp
  have "(2::real) powr (- 1022) \<le> 2 powr 0" by (intro powr_mono) simp_all
  also have "\<dots> \<le> 2 ^ 1025" by simp
  finally have "2 powr (- 1022) \<le> \<bar>x\<bar>" using assms by simp
  then have close: "\<bar>nearest x - x\<bar> \<le> \<bar>x\<bar> * 2 powr (- 53)" by (rule nearest_close)
  have "(2::real) powr (- 53) \<le> 2 powr (- 1)" by (intro powr_mono) simp_all
  then have "(2::real) powr (- 53) \<le> 1 / 2" by (simp add: powr_minus)
  then have "\<bar>x\<bar> * 2 powr (- 53) \<le> \<bar>x\<bar> * (1 / 2)" by (intro mult_left_mono) simp_all
  with close have "\<bar>nearest x - x\<bar> \<le> \<bar>x\<bar> * (1 / 2)" by (rule order_trans)
  then have "\<bar>nearest x - x\<bar> \<le> x / 2" using pos by simp
  then have "x / 2 \<le> nearest x" by linarith
  moreover have "(2::real) ^ 1024 \<le> x / 2" using assms by simp
  ultimately have "2 ^ 1024 \<le> \<bar>nearest x\<bar>" by linarith
  then show ?thesis using pos by (simp add: round64_def)
qed

lemma round64_positive:
  assumes "0 < x"
  shows "round64 x = PInf \<or> (\<exists>c. 0 \<le> c \<and> round64 x = Fin c)"
  using assms nearest_nonneg [of x] by (simp add: round64_def Let_def)

lemma round64_of_int: "\<bar>m\<bar> < 2 ^ 53 \<Longrightarrow> round64 (of_int m) = Fin (of_int m)"
proof -
  assume m: "\<bar>m\<bar> < 2 ^ 53"
  then have "real_of_int \<bar>m\<bar> < real_of_int (2 ^ 53)" by (simp only: of_int_less_iff)
  then have "\<bar>real_of_int m\<bar> < 2 ^ 1024" by simp
  then show ?thesis using m by (intro round64_exact [of _ m 0]) simp_all
qed

lemma round64_numeral: "numeral n < (2::int) ^ 53 \<Longrightarrow> round64 (numeral n) = Fin (numeral n)"
  using round64_of_int [of "numeral n"] by simp

lemma round64_neg_numeral: "numeral n < (2::int) ^ 53 \<Longrightarrow> round64 (- numeral n) = Fin (- numeral n)"
  using round64_of_int [of "- numeral n"] by simp

lemma round64_0: "round64 0 = Fin 0"
  by (simp add: round64_def nearest_def)

lemma round64_1: "round64 1 = Fin 1"
  using round64_of_int [of 1] by simp

lemmas round64_values = round64_numeral round64_neg_numeral round64_0 round64_1

lemma d_div_30_10: "d_div (Fin 30) (Fin 10) = Fin 3"
  by (simp add: d_div_def round_fl_def round64_values)

lemma py_pow10_3: "py_pow10 (Fin 3) = Inr (Fin 1000)"
  by (simp add: py_pow10_def round64_values)

lemma py_pow10_400: "py_pow10 (Fin 400) = Inl OverflowError"
proof -
  have "(10::real) powr 400 = 10 ^ 400" by (simp del: power_numeral)
  moreover have "(2::real) ^ 1025 \<le> 10 ^ 400" by simp
  ultimately have "round64 (10 powr 400) = PInf" by (intro round64_overflow) simp
  then show ?thesis by (simp add: py_pow10_def del: powr_numeral)
qed

lemma nearest_close_below:
  assumes nz: "x \<noteq> 0" and ub: "\<bar>x\<bar> < 2 powr of_int k" and k: "- 1022 \<le> k"
  shows "\<bar>nearest x - x\<bar> \<le> 2 powr (of_int k - 53)"
proof -
  define e where "e = \<lfloor>log 2 \<bar>x\<bar>\<rfloor>"
  define q where "q = max (e - 52) (- 1074)"
  have c: "nearest x = real_of_int (round_even (x / 2 powr of_int q)) * 2 powr of_int q"
    using nz by (simp add: nearest_def Let_def e_def [symmetric] q_def [symmetric])
  have "2 powr of_int e \<le> \<bar>x\<bar>" unfolding e_def using nz by (rule floor_log2_bounds)
  from this ub have "(2::real) powr of_int e < 2 powr of_int k" by (rule le_less_trans)
  then have "e < k" by simp
  then have qk: "q \<le> k - 52" using k by (simp add: q_def)
  have "nearest x - x = (of_int (round_even (x / 2 powr of_int q)) - x / 2 powr of_int q) * 2 powr of_int q"
    by (simp add: c algebra_simps)
  then have "\<bar>nearest x - x\<bar> = \<bar>of_int (round_even (x / 2 powr of_int q)) - x / 2 powr of_int q\<bar> * 2 powr of_int q"
    by (simp add: abs_mult)
  also have "\<dots> \<le> 1 / 2 * 2 powr of_int q"
    by (intro mult_right_mono round_even_close) simp
  also have "\<dots> = 2 powr (of_int q - 1)" by (simp add: powr_diff)
  also have "\<dots> \<le> 2 powr (of_int k - 53)" using qk by (intro powr_mono) simp_all
  finally show ?thesis .
qed

lemma round64_finite:
  assumes hi: "\<bar>x\<bar> \<le> 2 ^ 1023"
  shows "\<exists>c. round64 x = Fin c"
proof (cases "2 powr (- 1022) \<le> \<bar>x\<bar>")
  case True
  from round64_accurate [OF True hi] show ?thesis by blast
next
  case False
  show ?thesis
  proof (cases "x = 0")
    case True
    then show ?thesis by (simp add: round64_0)
  next
    case nz: False
    from False have "\<bar>x\<bar> < 2 powr of_int (- 1022)" by simp
    from nearest_close_below [OF nz this] have "\<bar>nearest x - x\<bar> \<le> 2 powr (- 1075)" by simp
    also have "\<dots> \<le> 2 powr 0" by (intro powr_mono) simp_all
    finally have d: "\<bar>nearest x - x\<bar> \<le> 1" by simp
    have "(2::real) powr (- 1022) \<le> 2 powr 0" by (intro powr_mono) simp_all
    with False have "\<bar>x\<bar> < 1" by simp
    with d have "\<bar>nearest x\<bar> < 2" by linarith
    also have "(2::real) \<le> 2 ^ 1024" using power_increasing [of 1 1024 "2::real"] by simp
    finally have "\<not> 2 ^ 1024 \<le> \<bar>nearest x\<bar>" by simp
    then show ?thesis by (simp add: round64_def)
  qed
qed

lemma py_pow10_no_overflow:
  assumes "\<bar>dB\<bar> \<le> 3000"
  shows "\<exists>d. 0 \<le> d \<and> py_pow10 (d_div (Fin dB) (Fin 10)) = Inr (Fin d)"
proof -
  let ?x = "dB / 10"
  have ax: "\<bar>?x\<bar> \<le> 300" using assms by simp
  have "(300::real) \<le> 2 ^ 1023" using power_increasing [of 9 1023 "2::real"] by simp
  with ax have "\<bar>?x\<bar> \<le> 2 ^ 1023" by linarith
  from round64_finite [OF this] obtain x' where x': "round64 ?x = Fin x'" by blast
  have x'b: "x' \<le> 301"
  proof (cases "?x = 0")
    case True
    with x' show ?thesis by (simp add: round64_0)
  next
    case False
    have "\<bar>?x\<bar> < 2 powr of_int 9" using ax by simp
    from nearest_close_below [OF False this] have "\<bar>nearest ?x - ?x\<bar> \<le> 2 powr (- 44)" by simp
    also have "\<dots> \<le> 2 powr 0" by (intro powr_mono) simp_all
    finally have "\<bar>nearest ?x - ?x\<bar> \<le> 1" by simp
    moreover have "x' = nearest ?x" using x' by (simp add: round64_def Let_def split: if_splits)
    ultimately show ?thesis using ax by linarith
  qed
  have "(10::real) powr x' \<le> 10 powr 301" using x'b by (intro powr_mono) simp_all
  also have "\<dots> = 10 ^ 301" by (simp del: power_numeral)
  also have "\<dots> \<le> 2 ^ 1023" by simp
  finally have "\<bar>10 powr x'\<bar> \<le> 2 ^ 1023" by simp
  from round64_finite [OF this] obtain d where d: "round64 (10 powr x') = Fin d" by blast
  have "0 < 10 powr x'" by simp
  from round64_positive [OF this] d have "0 \<le> d" by auto
  moreover have "py_pow10 (d_div (Fin dB) (Fin 10)) = Inr (Fin d)"
    by (simp add: d_div_def round_fl_def x' py_pow10_def d)
  ultimately show ?thesis by blast
qed

lemma round64_by_exponent:
  assumes lo: "2 powr of_int e \<le> \<bar>x\<bar>" and hi: "\<bar>x\<bar> < 2 powr (of_int e + 1)"
      and e: "- 1022 \<le> e"
      and n: "round_even (x / 2 powr of_int (e - 52)) = n"
      and fin: "\<bar>real_of_int n * 2 powr of_int (e - 52)\<bar> < 2 ^ 1024"
  shows "round64 x = Fin (of_int n * 2 powr of_int (e - 52))"
proof -
  have pos: "0 < \<bar>x\<bar>" using lo by (rule less_le_trans [rotated]) simp
  then have nz: "x \<noteq> 0" by simp
  have "of_int e \<le> log 2 \<bar>x\<bar>" using lo pos by (simp add: le_log_iff)
  moreover have "log 2 \<bar>x\<bar> < of_int e + 1" using hi pos by (simp add: log_less_iff)
  ultimately have fl: "\<lfloor>log 2 \<bar>x\<bar>\<rfloor> = e" by (simp add: floor_eq_iff)
  have q: "max (e - 52) (- 1074) = e - 52" using e by simp
  have "nearest x = of_int n * 2 powr of_int (e - 52)"
    using nz by (simp only: nearest_def Let_def fl q n if_False)
  then show ?thesis using fin by (simp add: round64_def)
qed

lemma round_even_ge: "of_int n \<le> y \<Longrightarrow> n \<le> round_even y"
proof -
  assume "of_int n \<le> y"
  then have "n \<le> \<lfloor>y\<rfloor>" by (simp add: le_floor_iff)
  then show ?thesis unfolding round_even_def Let_def by auto
qed

lemma round64_overflow_sharp:
  assumes "2 ^ 1024 \<le> x"
  shows "round64 x = PInf"
proof -
  have pos: "0 < x" using assms by (rule less_le_trans [rotated]) simp
  then have nz: "x \<noteq> 0" and ax: "\<bar>x\<bar> = x" by simp_all
  define e where "e = \<lfloor>log 2 \<bar>x\<bar>\<rfloor>"
  define q where "q = max (e - 52) (- 1074)"
  have "(2::real) powr 1024 = 2 ^ 1024" by (simp del: power_numeral)
  with assms have "2 powr 1024 \<le> x" by simp
  then have "1024 \<le> log 2 x" using pos by (simp add: le_log_iff)
  then have e: "1024 \<le> e" unfolding e_def ax by (simp add: le_floor_iff)
  then have q: "q = e - 52" by (simp add: q_def)
  have elo: "2 powr of_int e \<le> x"
    using floor_log2_bounds(1) [OF nz] unfolding e_def ax .
  have "real_of_int (2 ^ 52) = 2 powr of_int e / 2 powr of_int q"
    by (simp add: q powr_diff [symmetric])
  also have "\<dots> \<le> x / 2 powr of_int q" using elo by (intro divide_right_mono) simp_all
  finally have "2 ^ 52 \<le> round_even (x / 2 powr of_int q)" by (rule round_even_ge)
  then have "real_of_int (2 ^ 52) \<le> real_of_int (round_even (x / 2 powr of_int q))"
    by (simp only: of_int_le_iff)
  then have "real_of_int (2 ^ 52) * 2 powr of_int q
             \<le> real_of_int (round_even (x / 2 powr of_int q)) * 2 powr of_int q"
    by (intro mult_right_mono) simp_all
  moreover have "real_of_int (2 ^ 52) * 2 powr of_int q = 2 powr of_int e"
    by (simp add: q powr_diff)
  moreover have "(2::real) powr 1024 \<le> 2 powr of_int e" using e by (intro powr_mono) simp_all
  moreover have "nearest x = real_of_int (round_even (x / 2 powr of_int q)) * 2 powr of_int q"
    using nz by (simp add: nearest_def Let_def e_def [symmetric] q_def [symmetric])
  ultimately have "2 powr 1024 \<le> nearest x" by linarith
  then have "2 ^ 1024 \<le> \<bar>nearest x\<bar>" by (simp del: power_numeral)
  then show ?thesis using pos by (simp add: round64_def)
qed


lemmas double_eval = d_div_def d_mul_def round_fl_def round64_values py_pow10_3

subsection \<open>Conversion to 16 bits\<close>

text \<open>
  A finite value whose integer part fits in 16 bits is written as that integer part:
  the fraction is dropped, toward zero. Every other value is written as the processor
  converts it; through a 32-bit integer, the low 16 bits of the integer part remain.
\<close>

lemma trunc_toward_zero: "\<bar>real_of_int (trunc r)\<bar> \<le> \<bar>r\<bar> \<and> \<bar>r - real_of_int (trunc r)\<bar> < 1"
  unfolding trunc_def by (cases "0 \<le> r") (simp_all, linarith+)

lemma astype_int16_in_range:
  assumes "- 32768 \<le> trunc r" "trunc r \<le> 32767"
  shows "sint (astype_int16 out_of_range (Fin r)) = trunc r"
proof -
  have "signed_take_bit 15 (trunc r) = trunc r"
    using assms by (intro signed_take_bit_int_eq_self) simp_all
  then show ?thesis using assms by (simp add: astype_int16_def sint_sbintrunc')
qed

lemma astype_int16_not_in_range:
  "trunc r < - 32768 \<or> 32767 < trunc r \<Longrightarrow> astype_int16 out_of_range (Fin r) = out_of_range (Fin r)"
  by (auto simp: astype_int16_def)




subsection \<open>Scaling to the target loudness\<close>

lemma py_pow10_30: "py_pow10 (d_div (Fin 30) (Fin 10)) = Inr (Fin 1000)"
  by (simp add: d_div_30_10 py_pow10_3)

lemma unit_roundoff: "(2::real) powr (- 53) \<le> 1 / 4096"
proof -
  have "(2::real) powr (- 53) \<le> 2 powr (- 12)" by (intro powr_mono) simp_all
  also have "\<dots> = 1 / 4096" by (simp add: powr_minus_divide)
  finally show ?thesis .
qed

lemma scaled_peak_near_1000:
  assumes lo': "1 / 2 ^ 1012 \<le> \<bar>peak\<bar>" and hi': "\<bar>peak\<bar> \<le> 2 ^ 1024"
  shows "\<exists>g s. round64 (1000 / peak) = Fin g \<and> d_mul (Fin peak) (Fin g) = Fin s \<and> \<bar>s - 1000\<bar> < 1"
proof -
  let ?u = "(2::real) powr (- 53)"
  have p1: "(2::real) powr 1024 = 2 ^ 1024" by (simp del: power_numeral)
  have p2: "(2::real) powr (- 1012) = 1 / 2 ^ 1012"
    by (simp add: powr_minus_divide del: power_numeral)
  have lo: "2 powr (- 1012) \<le> \<bar>peak\<bar>" and hi: "\<bar>peak\<bar> \<le> 2 powr 1024"
    using lo' hi' by (simp_all only: p1 p2)
  have ppos: "0 < \<bar>peak\<bar>" using lo by (rule less_le_trans [rotated]) simp
  then have nz: "peak \<noteq> 0" by simp
  let ?x = "1000 / peak"
  have ax: "\<bar>?x\<bar> = 1000 / \<bar>peak\<bar>" by simp
  have "(2::real) powr (- 1022) = 2 powr 2 * 2 powr (- 1024)"
    by (simp only: powr_add [symmetric]) simp
  also have "\<dots> \<le> 1000 * 2 powr (- 1024)"
    by (intro mult_right_mono) simp_all
  also have "\<dots> = 1000 / 2 powr 1024" by (simp only: powr_minus_divide [of 2 1024] times_divide_eq_right mult_1_right)
  also have "\<dots> \<le> 1000 / \<bar>peak\<bar>" using hi ppos by (intro divide_left_mono) simp_all
  finally have xlo: "2 powr (- 1022) \<le> \<bar>?x\<bar>" unfolding ax .
  have "1000 / \<bar>peak\<bar> \<le> 1000 / 2 powr (- 1012)"
    using lo ppos by (intro divide_left_mono mult_pos_pos) simp_all
  also have "\<dots> = 1000 * 2 powr 1012" by (simp only: powr_minus_divide [of 2 1012] divide_divide_eq_right mult_1)
  also have "\<dots> \<le> 2 powr 10 * 2 powr 1012"
  proof (rule mult_right_mono)
    show "(1000::real) \<le> 2 powr 10" by simp
    show "(0::real) \<le> 2 powr 1012" by (rule powr_ge_zero)
  qed
  also have "\<dots> = 2 powr (10 + 1012)" by (rule powr_add [symmetric])
  also have "\<dots> = 2 powr 1022" by (simp del: powr_numeral)
  also have "\<dots> \<le> 2 powr 1023" by (intro powr_mono) simp_all
  also have "\<dots> = 2 ^ 1023" by (simp del: power_numeral)
  finally have xhi: "\<bar>?x\<bar> \<le> 2 ^ 1023" unfolding ax .
  from round64_accurate [OF xlo xhi] obtain g
    where g: "round64 ?x = Fin g" and gc: "\<bar>g - ?x\<bar> \<le> \<bar>?x\<bar> * ?u" by blast
  let ?y = "peak * g"
  have "?y - 1000 = peak * (g - ?x)" using nz by (simp add: algebra_simps)
  then have "\<bar>?y - 1000\<bar> = \<bar>peak\<bar> * \<bar>g - ?x\<bar>" by (simp add: abs_mult)
  also have "\<dots> \<le> \<bar>peak\<bar> * (\<bar>?x\<bar> * ?u)" using gc by (intro mult_left_mono) simp_all
  also have "\<dots> = 1000 * ?u" using nz by (simp add: ax)
  also have "\<dots> \<le> 1000 * (1 / 4096)" using unit_roundoff by (intro mult_left_mono) simp_all
  finally have y1: "\<bar>?y - 1000\<bar> \<le> 1000 / 4096" by simp
  then have ybounds: "999 \<le> ?y" "?y \<le> 1001" by linarith+
  then have ay: "\<bar>?y\<bar> = ?y" by linarith
  have "(2::real) powr (- 1022) \<le> 2 powr 0" by (intro powr_mono) simp_all
  then have "(2::real) powr (- 1022) \<le> 1" by simp
  then have ylo: "2 powr (- 1022) \<le> \<bar>?y\<bar>" using ybounds ay by linarith
  have "(1001::real) \<le> 2 ^ 10" by simp
  also have "\<dots> \<le> 2 ^ 1023" by (rule power_increasing) simp_all
  finally have yhi: "\<bar>?y\<bar> \<le> 2 ^ 1023" using ybounds ay by linarith
  from round64_accurate [OF ylo yhi] obtain s
    where s: "round64 ?y = Fin s" and sc: "\<bar>s - ?y\<bar> \<le> \<bar>?y\<bar> * ?u" by blast
  have "\<bar>?y\<bar> * ?u \<le> 1001 * (1 / 4096)"
    using unit_roundoff ybounds ay by (intro mult_mono) simp_all
  with sc have s1: "\<bar>s - ?y\<bar> \<le> 1001 / 4096" by linarith
  have "\<bar>s - 1000\<bar> \<le> \<bar>s - ?y\<bar> + \<bar>?y - 1000\<bar>" by simp
  also have "\<dots> \<le> 1001 / 4096 + 1000 / 4096" using s1 y1 by (rule add_mono)
  also have "\<dots> < 1" by simp
  finally have "\<bar>s - 1000\<bar> < 1" .
  moreover have "d_mul (Fin peak) (Fin g) = Fin s" by (simp add: d_mul_def round_fl_def s)
  ultimately show ?thesis using g by blast
qed

lemma written_999_or_1000:
  assumes "\<bar>s - 1000\<bar> < 1"
  shows "sint (astype_int16 out_of_range (Fin s)) = 999 \<or> sint (astype_int16 out_of_range (Fin s)) = 1000"
proof -
  from assms have b: "999 < s" "s < 1001" by linarith+
  then have t: "trunc s = \<lfloor>s\<rfloor>" by (simp add: trunc_def)
  have "999 \<le> \<lfloor>s\<rfloor>" using b by (simp add: le_floor_iff)
  moreover have "\<lfloor>s\<rfloor> < 1001" using b by (simp add: floor_less_iff)
  ultimately have "\<lfloor>s\<rfloor> = 999 \<or> \<lfloor>s\<rfloor> = 1000" by linarith
  then have r: "trunc s = 999 \<or> trunc s = 1000" by (simp only: t)
  then have "- 32768 \<le> trunc s" "trunc s \<le> 32767" by auto
  then have "sint (astype_int16 out_of_range (Fin s)) = trunc s"
    by (rule astype_int16_in_range)
  with r show ?thesis by simp
qed

text \<open>
  C5. For a buffer of finite samples whose largest value \<open>peak\<close> (signed, not absolute) is
  not zero, and a \<open>dB\<close> at which \<open>10 ** (dB / 10)\<close> does not overflow but is a double \<open>d\<close>, the
  scaling step of \<open>write\<close> multiplies every sample in place by the gain \<open>d / peak\<close>, the
  quotient and each product rounded to the nearest double. For \<open>dB = 30\<close> and a peak of
  magnitude at least \<open>1 / 2 ^ 1012\<close> (and at most \<open>2 ^ 1024\<close>, as every double is) the scaled
  peak differs from 1000 by less than 1, and the 16-bit sample written for it is 999 or
  1000.
\<close>

theorem scale_stage_gain:
  assumes "h ! sample = map Fin rs" and "rs \<noteq> []" and "Max (set rs) \<noteq> 0"
      and "py_pow10 (d_div (Fin dB) (Fin 10)) = Inr (Fin d)"
  shows "let peak = Max (set rs); gain = round64 (d / peak) in
           scale_stage h sample dB = Inr (h[sample := map (\<lambda>r. d_mul (Fin r) gain) rs])
         \<and> (dB = 30 \<longrightarrow> 1 / 2 ^ 1012 \<le> \<bar>peak\<bar> \<longrightarrow> \<bar>peak\<bar> \<le> 2 ^ 1024 \<longrightarrow>
               (\<exists>s. d_mul (Fin peak) gain = Fin s \<and> \<bar>s - 1000\<bar> < 1
                  \<and> (sint (astype_int16 out_of_range (Fin s)) = 999
                     \<or> sint (astype_int16 out_of_range (Fin s)) = 1000)))"
proof -
  define peak where "peak = Max (set rs)"
  define gain where "gain = round64 (d / peak)"
  have nz: "peak \<noteq> 0" using assms(3) by (simp add: peak_def)
  have mx: "np_max (map Fin rs) = Inr (Fin peak)"
    using assms(2) by (simp add: np_max_Fin peak_def)
  have g: "d_div (Fin d) (Fin peak) = gain"
    using nz by (simp add: d_div_def round_fl_def gain_def)
  have st: "scale_stage h sample dB = Inr (h[sample := map (\<lambda>r. d_mul (Fin r) gain) rs])"
    by (simp add: scale_stage_def assms(1,4) mx g o_def)
  have thirty: "\<exists>s. d_mul (Fin peak) gain = Fin s \<and> \<bar>s - 1000\<bar> < 1
                  \<and> (sint (astype_int16 out_of_range (Fin s)) = 999
                     \<or> sint (astype_int16 out_of_range (Fin s)) = 1000)"
    if "dB = 30" "1 / 2 ^ 1012 \<le> \<bar>peak\<bar>" "\<bar>peak\<bar> \<le> 2 ^ 1024"
  proof -
    from assms(4) that(1) have "d = 1000" by (simp add: py_pow10_30)
    with scaled_peak_near_1000 [OF that(2,3)] obtain s
      where "d_mul (Fin peak) gain = Fin s" "\<bar>s - 1000\<bar> < 1"
      by (auto simp: gain_def)
    with written_999_or_1000 [of s out_of_range] show ?thesis by blast
  qed
  from st thirty show ?thesis unfolding Let_def peak_def gain_def by blast
qed

theorem scale_stage_gain_witness:
  "scale_stage [[Fin (1 / 4), Fin (1 / 2), Fin (- 1)]] 0 30
     = Inr [[Fin 500, Fin 1000, Fin (- 2000)]]
   \<and> (\<exists>s. d_mul (Fin (1 / 2)) (Fin 2000) = Fin s \<and> \<bar>s - 1000\<bar> < 1
          \<and> (sint (astype_int16 cast_zero (Fin s)) = 999 \<or> sint (astype_int16 cast_zero (Fin s)) = 1000))"
  using scale_stage_gain [of "[[Fin (1 / 4), Fin (1 / 2), Fin (- 1)]]" 0 "[1 / 4, 1 / 2, - 1]" 30 1000 cast_zero]
  by (simp add: py_pow10_30 d_mul_def round_fl_def round64_values)

text \<open>
  At 4000 dB the power overflows and the scaling step raises \<open>OverflowError\<close>: no sample
  is multiplied. At 30 dB with the peak \<open>1 / 2 ^ 1022\<close>, the smallest normal double, the
  gain overflows to \<open>inf\<close> and so does the scaled peak.
\<close>

theorem scale_stage_gain_counterexample:
  "scale_stage [[Fin 1]] 0 4000 = Inl OverflowError
   \<and> scale_stage [[Fin (1 / 2 ^ 1022)]] 0 30 = Inr [[PInf]]"
proof
  have "d_div (Fin 4000) (Fin 10) = Fin 400"
    by (simp add: d_div_def round_fl_def round64_values)
  then show "scale_stage [[Fin 1]] 0 4000 = Inl OverflowError"
    by (simp add: scale_stage_def np_max_def py_pow10_400)
next
  have "(2::real) ^ 1025 \<le> 1000 * 2 ^ 1022" by simp
  then have "round64 (1000 * 2 ^ 1022) = PInf" by (rule round64_overflow)
  then have "d_div (Fin 1000) (Fin (1 / 2 ^ 1022)) = PInf"
    by (simp add: d_div_def round_fl_def del: power_numeral)
  then show "scale_stage [[Fin (1 / 2 ^ 1022)]] 0 30 = Inr [[PInf]]"
    by (simp add: scale_stage_def np_max_def py_pow10_30 d_mul_def round_fl_def del: power_numeral)
qed

text \<open>
  The power overflows for every \<open>dB\<close> from 3083 on, and for no \<open>dB\<close> of magnitude up to
  3000 (\<open>py_pow10_no_overflow\<close>).
\<close>

lemma ten_powr_29_100: "9 / 5 \<le> (10::real) powr (29 / 100)"
proof -
  have "(9::real) ^ 100 \<le> 10 ^ 29 * 5 ^ 100" by simp
  then have "(9::real) ^ 100 / 5 ^ 100 \<le> 10 ^ 29" by (simp add: divide_le_eq del: power_numeral)
  then have "(9 / 5 :: real) ^ 100 \<le> 10 ^ 29" by (simp only: power_divide)
  then have "((9 / 5 :: real) ^ 100) powr (1 / 100) \<le> (10 ^ 29) powr (1 / 100)"
    by (intro powr_mono2) (simp_all del: power_numeral power_divide)
  moreover have "((9 / 5 :: real) ^ 100) powr (1 / 100) = 9 / 5"
  proof -
    have "((9 / 5 :: real) ^ 100) = (9 / 5) powr 100" by (simp del: power_numeral power_divide)
    then have "((9 / 5 :: real) ^ 100) powr (1 / 100) = ((9 / 5) powr 100) powr (1 / 100)" by simp
    also have "\<dots> = 9 / 5" by (simp only: powr_powr) simp
    finally show ?thesis .
  qed
  moreover have "((10 :: real) ^ 29) powr (1 / 100) = 10 powr (29 / 100)"
  proof -
    have "((10 :: real) ^ 29) = 10 powr 29" by (simp del: power_numeral)
    then have "((10 :: real) ^ 29) powr (1 / 100) = (10 powr 29) powr (1 / 100)" by simp
    also have "\<dots> = 10 powr (29 / 100)" by (simp only: powr_powr) simp
    finally show ?thesis .
  qed
  ultimately show ?thesis by simp
qed

lemma py_pow10_overflow:
  assumes lo: "3083 \<le> dB" and hi: "dB \<le> 2 ^ 1024"
  shows "py_pow10 (d_div (Fin dB) (Fin 10)) = Inl OverflowError"
proof -
  let ?x = "dB / 10"
  have xlo: "3083 / 10 \<le> ?x" using lo by simp
  then have ax: "\<bar>?x\<bar> = ?x" by simp
  have "?x \<le> 2 ^ 1024 / 10" using hi by simp
  also have "\<dots> \<le> 2 ^ 1023" by simp
  finally have "\<bar>?x\<bar> \<le> 2 ^ 1023" using ax by simp
  from round64_finite [OF this] obtain x' where x': "round64 ?x = Fin x'" by blast
  then have n: "x' = nearest ?x" by (simp add: round64_def Let_def split: if_splits)
  have "(2::real) powr (- 1022) \<le> 2 powr 0" by (intro powr_mono) simp_all
  then have "2 powr (- 1022) \<le> \<bar>?x\<bar>" using xlo ax by simp
  then have close: "\<bar>nearest ?x - ?x\<bar> \<le> \<bar>?x\<bar> * 2 powr (- 53)" by (rule nearest_close)
  have "(2::real) powr (- 53) \<le> 2 powr (- 20)" by (intro powr_mono) simp_all
  also have "\<dots> = 1 / 1048576" by (simp add: powr_minus_divide)
  finally have "\<bar>?x\<bar> * 2 powr (- 53) \<le> \<bar>?x\<bar> * (1 / 1048576)"
    by (intro mult_left_mono) simp_all
  with close have "\<bar>nearest ?x - ?x\<bar> \<le> ?x / 1048576" using ax by simp
  then have "30829 / 100 \<le> x'" unfolding n using xlo by linarith
  then have "(10::real) powr (30829 / 100) \<le> 10 powr x'" by (intro powr_mono) simp_all
  moreover have "(10::real) powr (30829 / 100) = 10 powr 308 * 10 powr (29 / 100)"
    by (simp only: powr_add [symmetric]) simp
  moreover have "(10::real) powr 308 * (9 / 5) \<le> 10 powr 308 * 10 powr (29 / 100)"
    using ten_powr_29_100 by (intro mult_left_mono) simp_all
  moreover have "(2::real) ^ 1024 \<le> 10 powr 308 * (9 / 5)" by simp
  ultimately have "2 ^ 1024 \<le> 10 powr x'" by linarith
  then have "round64 (10 powr x') = PInf" by (rule round64_overflow_sharp)
  then show ?thesis by (simp add: d_div_def round_fl_def x' py_pow10_def)
qed

lemma scale_stage_3083: "scale_stage [[Fin 1]] 0 3083 = Inl OverflowError"
  using py_pow10_overflow [of 3083] by (simp add: scale_stage_def np_max_def)

text \<open>
  An input on which the rounding shows: with the peak 19.0 at 30 dB the gain is the double
  nearest to \<open>1000 / 19\<close>, the scaled peak is the double just below 1000, and the sample
  written is 999.
\<close>

lemma gain_for_19: "round64 (1000 / 19) = Fin (7407236229227789 / 2 ^ 47)"
proof -
  have p: "(2::real) powr of_int (5 - 52) = 1 / 2 ^ 47"
    by (simp add: powr_minus_divide)
  have "round_even ((1000 / 19) / 2 powr of_int (5 - 52)) = 7407236229227789"
    unfolding p by (simp add: round_even_def)
  then have "round64 (1000 / 19) = Fin (of_int 7407236229227789 * 2 powr of_int (5 - 52))"
    by (intro round64_by_exponent) (simp_all add: powr_minus_divide)
  then show ?thesis unfolding p by simp
qed

lemma scaled_19: "round64 (19 * (7407236229227789 / 2 ^ 47)) = Fin (8796093022207999 / 2 ^ 43)"
proof -
  have p: "(2::real) powr of_int (9 - 52) = 1 / 2 ^ 43"
    by (simp add: powr_minus_divide)
  have "round_even ((19 * (7407236229227789 / 2 ^ 47)) / 2 powr of_int (9 - 52)) = 8796093022207999"
    unfolding p by (simp add: round_even_def)
  then have "round64 (19 * (7407236229227789 / 2 ^ 47))
             = Fin (of_int 8796093022207999 * 2 powr of_int (9 - 52))"
    by (intro round64_by_exponent) (simp_all add: powr_minus_divide)
  then show ?thesis unfolding p by simp
qed

lemma write_wav_peak_19:
  "write_wav cast_zero nothing_exists ''a.wav'' 8000 0 30 [] [] [[Fin 19]]
   = (Returned, [[Fin (8796093022207999 / 2 ^ 43)]], [WavWrite ''a.wav'' 8000 [999]])"
proof -
  have g: "d_div (Fin 1000) (Fin 19) = Fin (7407236229227789 / 2 ^ 47)"
    using gain_for_19 by (simp add: d_div_def round_fl_def)
  have s: "d_mul (Fin 19) (Fin (7407236229227789 / 2 ^ 47)) = Fin (8796093022207999 / 2 ^ 43)"
    using scaled_19 by (simp add: d_mul_def round_fl_def)
  have t: "trunc (8796093022207999 / 2 ^ 43) = 999" by (simp add: trunc_def)
  have a: "astype_int16 cast_zero (Fin (8796093022207999 / 2 ^ 43)) = 999"
    by (simp only: astype_int16_def fl.case t) simp
  have "scale_stage [[Fin 19]] 0 30 = Inr [[Fin (8796093022207999 / 2 ^ 43)]]"
    by (simp add: scale_stage_def np_max_def py_pow10_30 g s del: power_numeral)
  then show ?thesis
    by (simp add: write_wav_def extract_stage_def nothing_exists_def a del: power_numeral)
qed

subsection \<open>Silent buffers\<close>

lemma all_zero_replicate: "(\<forall>x\<in>set xs. x = z) \<Longrightarrow> xs = replicate (length xs) z"
  by (induction xs) auto

lemma np_max_zeros: "0 < n \<Longrightarrow> np_max (replicate n (Fin 0)) = Inr (Fin 0)"
proof -
  assume "0 < n"
  then have "np_max (map Fin (replicate n 0)) = Inr (Fin (Max (set (replicate n (0::real)))))"
    by (intro np_max_Fin) auto
  then show ?thesis using \<open>0 < n\<close> by simp
qed

lemma map_all_zero: "(\<forall>x\<in>set xs. x = z) \<Longrightarrow> map f xs = replicate (length xs) (f z)"
  by (induction xs) auto

lemma read_silent:
  assumes "wav_read path = Inr (rate, raw)" "raw \<noteq> []" "\<forall>x\<in>set raw. x = 0"
  shows "read wav_read path = Inr (rate, replicate (length raw) NaN)"
proof -
  have s: "map (\<lambda>x. Fin (real_of_int x)) raw = replicate (length raw) (Fin 0)"
    using map_all_zero [OF assms(3), of "\<lambda>x. Fin (real_of_int x)"] by simp
  have n: "0 < length raw" using assms(2) by simp
  have s1: "map (fl_abs \<circ> (\<lambda>x. Fin (real_of_int x))) raw = replicate (length raw) (Fin 0)"
    using map_all_zero [OF assms(3), of "fl_abs \<circ> (\<lambda>x. Fin (real_of_int x))"] by simp
  show ?thesis
    by (simp add: read_def assms(1) s s1 np_max_zeros [OF n])
qed

lemma round64_not_NaN: "round64 x \<noteq> NaN"
  by (simp add: round64_def Let_def)

lemma py_pow10_results:
  assumes "x \<noteq> NaN"
  shows "py_pow10 x = Inl OverflowError \<or> py_pow10 x = Inr PInf \<or> (\<exists>d. 0 \<le> d \<and> py_pow10 x = Inr (Fin d))"
proof (cases x)
  case (Fin r)
  have "0 < 10 powr r" by simp
  from round64_positive [OF this] show ?thesis by (auto simp: py_pow10_def Fin)
qed (use assms in \<open>auto simp: py_pow10_def\<close>)

lemma silent_gain:
  assumes "v = PInf \<or> (\<exists>d. 0 \<le> d \<and> v = Fin d)"
  shows "d_mul (Fin 0) (d_div v (Fin 0)) = NaN"
  using assms by (auto simp: d_mul_def d_div_def round_fl_def)

lemma scale_stage_silent:
  assumes "h ! sample \<noteq> []" "\<forall>x\<in>set (h ! sample). x = Fin 0"
  shows "scale_stage h sample dB =
           (if py_pow10 (d_div (Fin dB) (Fin 10)) = Inl OverflowError then Inl OverflowError
            else Inr (h[sample := replicate (length (h ! sample)) NaN]))"
proof -
  have n: "0 < length (h ! sample)" using assms(1) by simp
  have z: "h ! sample = replicate (length (h ! sample)) (Fin 0)"
    using assms(2) by (rule all_zero_replicate)
  have mx: "np_max (h ! sample) = Inr (Fin 0)"
    using np_max_zeros [OF n] z by simp
  have "d_div (Fin dB) (Fin 10) \<noteq> NaN"
    by (simp add: d_div_def round_fl_def round64_not_NaN)
  from py_pow10_results [OF this] show ?thesis
  proof (elim disjE exE conjE)
    assume "py_pow10 (d_div (Fin dB) (Fin 10)) = Inl OverflowError"
    then show ?thesis by (simp add: scale_stage_def mx)
  next
    assume p: "py_pow10 (d_div (Fin dB) (Fin 10)) = Inr PInf"
    have "map (\<lambda>x. d_mul x (d_div PInf (Fin 0))) (h ! sample) = replicate (length (h ! sample)) NaN"
      using map_all_zero [OF assms(2), of "\<lambda>x. d_mul x (d_div PInf (Fin 0))"]
      by (simp add: silent_gain)
    then show ?thesis by (simp add: scale_stage_def mx p)
  next
    fix d assume d: "0 \<le> d" and p: "py_pow10 (d_div (Fin dB) (Fin 10)) = Inr (Fin d)"
    have "map (\<lambda>x. d_mul x (d_div (Fin d) (Fin 0))) (h ! sample) = replicate (length (h ! sample)) NaN"
      using map_all_zero [OF assms(2), of "\<lambda>x. d_mul x (d_div (Fin d) (Fin 0))"] d
      by (simp add: silent_gain)
    then show ?thesis by (simp add: scale_stage_def mx p)
  qed
qed

lemma empty_buffer_value_error:
  "wav_read path = Inr (rate, []) \<Longrightarrow> read wav_read path = Inl ValueError"
  "sample < length h \<Longrightarrow> h ! sample = [] \<Longrightarrow>
     write_wav out_of_range path_exists path rate sample dB output_dir [] h
     = (Raised ValueError, h,
        if output_dir \<noteq> [] \<and> \<not> path_exists output_dir then [MakeDirs output_dir] else [])"
  by (simp_all add: read_def np_max_def write_wav_def extract_stage_def scale_stage_def)

text \<open>
  C2. The code has no check for a silent buffer and no \<open>DegenerateSignalError\<close>. For a
  buffer that is not empty and all zero, \<open>read\<close> does not raise: it returns the same sample
  rate and \<open>nan\<close> for every sample (\<open>0 / 0\<close>). \<open>write\<close> without segments does not raise for
  the silence either: unless \<open>10 ** (dB / 10)\<close> overflows, which raises \<open>OverflowError\<close>
  whatever the buffer holds (and not for a \<open>dB\<close> of magnitude up to 3000), it computes an
  infinite gain (or \<open>nan\<close>, when the power underflows to zero), turns every sample of the
  caller's array into \<open>nan\<close>, and goes on to create the directory if asked and to write
  the file, with whatever the conversion to 16 bits makes of \<open>nan\<close>. (An empty buffer
  does fail, in both, with the \<open>ValueError\<close> of \<open>np.max\<close>.)
\<close>

theorem silent_buffer_not_rejected:
  "(wav_read path = Inr (rate, raw) \<longrightarrow> raw \<noteq> [] \<longrightarrow> (\<forall>x\<in>set raw. x = 0) \<longrightarrow>
      read wav_read path = Inr (rate, replicate (length raw) NaN))
   \<and> (sample < length h \<longrightarrow> h ! sample \<noteq> [] \<longrightarrow> (\<forall>x\<in>set (h ! sample). x = Fin 0) \<longrightarrow>
      write_wav out_of_range path_exists path rate sample dB output_dir [] h
      = (if py_pow10 (d_div (Fin dB) (Fin 10)) = Inl OverflowError
         then (Raised OverflowError, h,
               if output_dir \<noteq> [] \<and> \<not> path_exists output_dir then [MakeDirs output_dir] else [])
         else (Returned, h[sample := replicate (length (h ! sample)) NaN],
               (if output_dir \<noteq> [] \<and> \<not> path_exists output_dir then [MakeDirs output_dir] else [])
               @ [WavWrite (if output_dir \<noteq> [] then path_join output_dir (basename path) else path) rate
                    (replicate (length (h ! sample)) (out_of_range NaN))])))"
proof (intro conjI impI)
  assume "wav_read path = Inr (rate, raw)" "raw \<noteq> []" "\<forall>x\<in>set raw. x = 0"
  then show "read wav_read path = Inr (rate, replicate (length raw) NaN)" by (rule read_silent)
next
  assume a: "sample < length h" "h ! sample \<noteq> []" "\<forall>x\<in>set (h ! sample). x = Fin 0"
  have nan: "astype_int16 out_of_range NaN = out_of_range NaN" by (simp add: astype_int16_def)
  show "write_wav out_of_range path_exists path rate sample dB output_dir [] h
      = (if py_pow10 (d_div (Fin dB) (Fin 10)) = Inl OverflowError
         then (Raised OverflowError, h,
               if output_dir \<noteq> [] \<and> \<not> path_exists output_dir then [MakeDirs output_dir] else [])
         else (Returned, h[sample := replicate (length (h ! sample)) NaN],
               (if output_dir \<noteq> [] \<and> \<not> path_exists output_dir then [MakeDirs output_dir] else [])
               @ [WavWrite (if output_dir \<noteq> [] then path_join output_dir (basename path) else path) rate
                    (replicate (length (h ! sample)) (out_of_range NaN))]))"
    using a(1) by (simp add: write_wav_def extract_stage_def scale_stage_silent [OF a(2,3)] nan)
qed

theorem silent_buffer_not_rejected_witness:
  "read (codec_of 44100 [0, 0, 0]) ''silence.wav'' = Inr (44100, [NaN, NaN, NaN])
   \<and> write_wav cast_zero nothing_exists ''silence.wav'' 44100 0 30 ''out'' [] [[Fin 0]]
      = (Returned, [[NaN]], [MakeDirs ''out'', WavWrite ''out/silence.wav'' 44100 [0]])"
  using silent_buffer_not_rejected
    [where wav_read = "codec_of 44100 [0, 0, 0]" and path = "''silence.wav''" and rate = 44100
       and raw = "[0, 0, 0]" and sample = 0 and h = "[[Fin 0]]" and out_of_range = cast_zero
       and path_exists = nothing_exists and dB = 30 and output_dir = "''out''"]
  by (simp add: path_join_def basename_def codec_of_def nothing_exists_def cast_zero_def py_pow10_30)

text \<open>
  The decoded buffer \<open>[0, 0]\<close> is read back as \<open>[nan, nan]\<close> and no error is raised; the
  array \<open>[0.0, 0.0]\<close> is written to \<open>a.wav\<close> and no error is raised.
\<close>

theorem silent_buffer_counterexample:
  "read (codec_of 8000 [0, 0]) ''a.wav'' = Inr (8000, [NaN, NaN])
   \<and> write_wav cast_zero nothing_exists ''a.wav'' 8000 0 30 [] [] [[Fin 0, Fin 0]]
      = (Returned, [[NaN, NaN]], [WavWrite ''a.wav'' 8000 [0, 0]])"
  by (simp add: read_def np_max_def write_wav_def extract_stage_def scale_stage_def astype_int16_def
      codec_of_def nothing_exists_def cast_zero_def double_eval)

subsection \<open>Malformed segments\<close>

lemma write_wav_extract_fails:
  assumes "segments \<noteq> []" "extract_segments (h ! sample) segments = Inl e"
  shows "write_wav out_of_range path_exists path rate sample dB output_dir segments h
         = (Raised e, h, [])"
  using assms by (simp add: write_wav_def extract_stage_def)

lemma extract_segments_negative_total:
  "(\<Sum>(start, stop)\<leftarrow>segments. stop - start) < 0 \<Longrightarrow> extract_segments sample segments = Inl ValueError"
  by (simp add: extract_segments_def np_zeros_def)

lemma extract_segments_past_end:
  assumes "length sample \<noteq> 1"
  shows "extract_segments sample [(0, int (length sample) + 1)] = Inl ValueError"
proof -
  have src: "py_slice sample 0 (int (length sample) + 1) = sample"
    by (simp add: py_slice_def adjust_index_def)
  have "slice_assign (replicate (Suc (length sample)) (Fin 0)) 0 (int (length sample) + 1) sample
        = Inl ValueError"
    using assms by (simp add: slice_assign_def adjust_index_def)
  then show ?thesis
    by (simp add: extract_segments_def np_zeros_def src nat_add_distrib)
qed

lemma extract_segments_negative_start:
  assumes "length sample \<noteq> 1" "length sample \<noteq> 2"
  shows "extract_segments sample [(- 1, 2)] = Inl ValueError"
proof -
  have src: "py_slice sample (- 1) 2 = []"
    using assms by (auto simp: py_slice_def adjust_index_def)
  have "slice_assign (replicate 3 (Fin 0)) 0 3 [] = Inl ValueError"
    by (simp add: slice_assign_def adjust_index_def)
  then show ?thesis
    by (simp add: extract_segments_def np_zeros_def src)
qed

text \<open>
  C4. The code does not validate segments and has no \<open>InvalidSegmentError\<close>. What stops a
  malformed segment is numpy: whenever the extraction step fails (the total of
  \<open>stop - start\<close> is negative, or a source slice has a length that is neither the length of
  its destination slice nor one), \<open>write\<close> raises that \<open>ValueError\<close> before any input or
  output: no directory is created, no file is written and the store is unchanged. This
  is so for every list of segments whose total length is negative, as \<open>[(5, 3)]\<close>; for
  \<open>[(0, L + 1)]\<close> on every buffer of length \<open>L \<noteq> 1\<close>; and for \<open>[(-1, 2)]\<close> on every buffer
  of a length other than 1 and 2.
\<close>

theorem malformed_segments_value_error:
  "(segments \<noteq> [] \<longrightarrow> extract_segments (h ! sample) segments = Inl e \<longrightarrow>
      write_wav out_of_range path_exists path rate sample dB output_dir segments h = (Raised e, h, []))
   \<and> ((\<Sum>(start, stop)\<leftarrow>segments. stop - start) < 0 \<longrightarrow>
      write_wav out_of_range path_exists path rate sample dB output_dir segments h
      = (Raised ValueError, h, []))
   \<and> (length (h ! sample) \<noteq> 1 \<longrightarrow>
      write_wav out_of_range path_exists path rate sample dB output_dir
        [(0, int (length (h ! sample)) + 1)] h
      = (Raised ValueError, h, []))
   \<and> (length (h ! sample) \<noteq> 1 \<longrightarrow> length (h ! sample) \<noteq> 2 \<longrightarrow>
      write_wav out_of_range path_exists path rate sample dB output_dir [(- 1, 2)] h
      = (Raised ValueError, h, []))"
proof (intro conjI impI)
  assume "segments \<noteq> []" "extract_segments (h ! sample) segments = Inl e"
  then show "write_wav out_of_range path_exists path rate sample dB output_dir segments h = (Raised e, h, [])"
    by (rule write_wav_extract_fails)
next
  assume neg: "(\<Sum>(start, stop)\<leftarrow>segments. stop - start) < 0"
  then have "segments \<noteq> []" by auto
  then show "write_wav out_of_range path_exists path rate sample dB output_dir segments h
      = (Raised ValueError, h, [])"
    using extract_segments_negative_total [OF neg] by (intro write_wav_extract_fails) auto
next
  assume "length (h ! sample) \<noteq> 1"
  then show "write_wav out_of_range path_exists path rate sample dB output_dir
        [(0, int (length (h ! sample)) + 1)] h = (Raised ValueError, h, [])"
    by (intro write_wav_extract_fails extract_segments_past_end) auto
next
  assume "length (h ! sample) \<noteq> 1" "length (h ! sample) \<noteq> 2"
  then show "write_wav out_of_range path_exists path rate sample dB output_dir [(- 1, 2)] h
      = (Raised ValueError, h, [])"
    by (intro write_wav_extract_fails extract_segments_negative_start) auto
qed

theorem malformed_segments_value_error_witness:
  "write_wav cast_zero nothing_exists ''a.wav'' 8000 0 30 ''out'' [(5, 3)] [[Fin 1, Fin 2, Fin 3]]
     = (Raised ValueError, [[Fin 1, Fin 2, Fin 3]], [])
   \<and> write_wav cast_zero nothing_exists ''a.wav'' 8000 0 30 ''out'' [(0, 4)] [[Fin 1, Fin 2, Fin 3]]
     = (Raised ValueError, [[Fin 1, Fin 2, Fin 3]], [])
   \<and> write_wav cast_zero nothing_exists ''a.wav'' 8000 0 30 ''out'' [(- 1, 2)] [[Fin 1, Fin 2, Fin 3]]
     = (Raised ValueError, [[Fin 1, Fin 2, Fin 3]], [])"
  using malformed_segments_value_error
    [where segments = "[(5, 3)]" and h = "[[Fin 1, Fin 2, Fin 3]]" and sample = 0
       and out_of_range = cast_zero and path_exists = nothing_exists and path = "''a.wav''"
       and rate = 8000 and dB = 30 and output_dir = "''out''" and e = ValueError]
  by simp

text \<open>
  On a buffer of length 2 the segment \<open>(-1, 2)\<close> is accepted: the source slice is the last
  sample alone, numpy broadcasts it over the three destination samples, and the file is
  written. On a buffer of length 1 the segment \<open>(0, 2)\<close>, which ends past the buffer, is
  accepted in the same way.
\<close>

theorem malformed_segments_counterexample:
  "write_wav cast_zero nothing_exists ''a.wav'' 8000 0 30 [] [(- 1, 2)] [[Fin 1, Fin 2]]
     = (Returned, [[Fin 1, Fin 2], [Fin 1000, Fin 1000, Fin 1000]],
        [WavWrite ''a.wav'' 8000 [1000, 1000, 1000]])
   \<and> write_wav cast_zero nothing_exists ''a.wav'' 8000 0 30 [] [(0, 2)] [[Fin 4]]
     = (Returned, [[Fin 4], [Fin 1000, Fin 1000]], [WavWrite ''a.wav'' 8000 [1000, 1000]])"
  by (simp add: write_wav_def extract_stage_def extract_segments_def np_zeros_def
      slice_assign_def py_slice_def adjust_index_def scale_stage_def np_max_def
      astype_int16_def trunc_def numeral_3_eq_3 numeral_2_eq_2 nothing_exists_def double_eval)

subsection \<open>Effects of write\<close>

text \<open>
  The effects of \<open>write\<close> on the world outside are at most the creation of the output
  directory, only when it does not exist yet, and then the one file. With segments the
  arrays the store held before the call are unchanged.
\<close>

lemma write_wav_with_segments_keeps_store:
  assumes "segments \<noteq> []"
      and "write_wav out_of_range path_exists path rate sample dB output_dir segments h = (out, h', effects)"
  shows "take (length h) h' = h"
  using assms
  by (auto simp: write_wav_def extract_stage_def scale_stage_def Let_def
      split: sum.splits if_splits)

lemma write_wav_effects:
  assumes "write_wav out_of_range path_exists path rate sample dB output_dir segments h = (out, h', effects)"
  shows "set effects \<subseteq> {MakeDirs output_dir} \<union> {WavWrite p rate d | p d. out = Returned}"
    and "MakeDirs output_dir \<in> set effects \<Longrightarrow> \<not> path_exists output_dir"
  using assms
  by (auto simp: write_wav_def Let_def split: sum.splits if_splits prod.splits)

text \<open>
  C7. Without segments, \<open>sample\<close> still names the caller's array when \<open>*=\<close> runs, and the
  caller's array is scaled in place: after writing the array \<open>[0.5, 1.0]\<close> at 30 dB the
  caller holds \<open>[500.0, 1000.0]\<close>.
\<close>

theorem write_scales_callers_array_in_place:
  "write_wav cast_zero nothing_exists ''out.wav'' 8000 0 30 [] [] [[Fin (1 / 2), Fin 1]]
     = (Returned, [[Fin 500, Fin 1000]], [WavWrite ''out.wav'' 8000 [500, 1000]])"
  by (simp add: write_wav_def extract_stage_def scale_stage_def np_max_def
      astype_int16_def trunc_def nothing_exists_def double_eval)

subsection \<open>The samples written\<close>







subsection \<open>What the walker finds\<close>

lemma foldl_snoc_map: "foldl (\<lambda>recs x. recs @ [f x]) recs xs = recs @ map f xs"
  by (induction xs arbitrary: recs) simp_all

lemma append_wavs_eq: "append_wavs recs triple = recs @ wavs_of triple"
  by (cases triple) (simp add: append_wavs_def wavs_of_def foldl_snoc_map)

lemma foldl_append_wavs: "foldl append_wavs recs triples = recs @ concat (map wavs_of triples)"
  by (induction triples arbitrary: recs) (simp_all add: append_wavs_eq)

lemma file_under_File: "\<not> file_under dirpath File p name"
  by (auto elim: file_under.cases)

lemma file_under_Dir:
  "file_under dirpath (Dir entries) p name \<longleftrightarrow>
     ((name, File) \<in> set entries \<and> p = path_join dirpath name)
   \<or> (\<exists>d sub. (d, Dir sub) \<in> set entries \<and> file_under (path_join dirpath d) (Dir sub) p name)"
  by (auto elim: file_under.cases intro: file_under.intros)

lemma walk_finds_wavs:
  "set (concat (map wavs_of (os_walk dirpath n)))
     = {p. \<exists>name. file_under dirpath n p name \<and> endswith name ''.wav''}"
  "set (concat (map wavs_of (walk_dirs dirpath entries)))
     = {p. \<exists>d sub name. (d, Dir sub) \<in> set entries
             \<and> file_under (path_join dirpath d) (Dir sub) p name \<and> endswith name ''.wav''}"
proof (induction dirpath n and dirpath entries rule: os_walk_walk_dirs.induct)
  case (1 topdir)
  show ?case by (simp add: file_under_File)
next
  case (2 topdir entries)
  have first: "set (wavs_of (topdir, map fst (filter (\<lambda>(name, n). n \<noteq> File) entries),
                     map fst (filter (\<lambda>(name, n). n = File) entries)))
        = {p. \<exists>name. (name, File) \<in> set entries \<and> p = path_join topdir name \<and> endswith name ''.wav''}"
    by (force simp: wavs_of_def)
  show ?case
    unfolding os_walk.simps list.map concat.simps set_append first "2.IH"
    by (subst file_under_Dir) blast
next
  case (3 topdir)
  show ?case by simp
next
  case (4 topdir name n entries)
  show ?case
  proof (cases n)
    case File
    with 4 show ?thesis by auto
  next
    case (Dir sub)
    then have nf: "n \<noteq> File" by simp
    have l: "set (concat (map wavs_of (walk_dirs topdir ((name, n) # entries))))
             = {p. \<exists>nm. file_under (path_join topdir name) n p nm \<and> endswith nm ''.wav''}
               \<union> {p. \<exists>d sub nm. (d, Dir sub) \<in> set entries
                      \<and> file_under (path_join topdir d) (Dir sub) p nm \<and> endswith nm ''.wav''}"
      using "4.IH"(1) [OF nf] "4.IH"(2) nf by (simp del: os_walk.simps)
    show ?thesis unfolding l using Dir by auto
  qed
qed

lemma endswith_append: "endswith b suf \<Longrightarrow> endswith (a @ b) suf"
  by (auto simp: endswith_def)

lemma path_join_ends: "\<exists>pre. path_join a b = pre @ b"
proof -
  have "path_join a b = [] @ b \<or> path_join a b = a @ b \<or> path_join a b = (a @ ''/'') @ b"
    by (simp add: path_join_def)
  then show ?thesis by blast
qed

lemma endswith_path_join: "endswith name suf \<Longrightarrow> endswith (path_join dirpath name) suf"
  using path_join_ends [of dirpath name] endswith_append [of name suf] by auto

lemma endswith_suffix: "endswith s suf \<longleftrightarrow> suffix suf s"
proof
  assume "endswith s suf"
  then have "s = take (length s - length suf) s @ suf"
    by (metis append_take_drop_id endswith_def)
  then show "suffix suf s" by (metis suffixI)
next
  assume "suffix suf s"
  then obtain pre where "s = pre @ suf" by (auto simp: suffix_def)
  then show "endswith s suf" by (simp add: endswith_def)
qed

lemma file_under_path_ends: "file_under dirpath n p name \<Longrightarrow> endswith name suf \<Longrightarrow> endswith p suf"
  by (induction rule: file_under.induct) (auto intro: endswith_path_join)

lemma recordings_Walker_init:
  "recordings (Walker_init loc at_location)
   = (if at_location = Some File \<and> endswith loc ''.wav'' then [loc] else [])
     @ concat (map wavs_of (case at_location of None \<Rightarrow> [] | Some n \<Rightarrow> os_walk loc n))"
  by (simp add: Walker_init_def Let_def foldl_append_wavs)

text \<open>
  C8. A path is in the entry list of a new walker exactly when it is the given location
  itself, the location being a file whose path ends with \<open>.wav\<close>, or the path of a file
  under the location whose name ends with \<open>.wav\<close>. When the location is such a file it is
  the only entry. Every entry ends with \<open>.wav\<close>, compared character by character, so a
  file of any other name, as \<open>c.txt\<close> or \<open>D.WAV\<close>, is not an entry.
\<close>

theorem Walker_init_finds_wavs:
  "(p \<in> set (recordings (Walker_init loc at_location)) \<longleftrightarrow>
      (at_location = Some File \<and> endswith loc ''.wav'' \<and> p = loc)
    \<or> (\<exists>n name. at_location = Some n \<and> file_under loc n p name \<and> endswith name ''.wav''))
   \<and> (at_location = Some File \<longrightarrow> endswith loc ''.wav'' \<longrightarrow>
        recordings (Walker_init loc at_location) = [loc])
   \<and> (p \<in> set (recordings (Walker_init loc at_location)) \<longrightarrow> endswith p ''.wav'')"
proof -
  have mem: "p \<in> set (recordings (Walker_init loc at_location)) \<longleftrightarrow>
      (at_location = Some File \<and> endswith loc ''.wav'' \<and> p = loc)
    \<or> (\<exists>n name. at_location = Some n \<and> file_under loc n p name \<and> endswith name ''.wav'')"
  proof (cases at_location)
    case None
    then show ?thesis by (simp add: recordings_Walker_init)
  next
    case (Some n)
    have "p \<in> set (concat (map wavs_of (os_walk loc n)))
          \<longleftrightarrow> (\<exists>name. file_under loc n p name \<and> endswith name ''.wav'')"
      unfolding walk_finds_wavs(1) by simp
    then show ?thesis
      unfolding recordings_Walker_init Some set_append option.case
      by (auto simp del: os_walk.simps set_concat)
  qed
  have sole: "recordings (Walker_init loc at_location) = [loc]"
    if "at_location = Some File" "endswith loc ''.wav''"
    using that by (simp add: recordings_Walker_init)
  have "endswith p ''.wav''" if "p \<in> set (recordings (Walker_init loc at_location))"
    using that unfolding mem by (auto intro: file_under_path_ends)
  with mem sole show ?thesis by blast
qed

theorem Walker_init_finds_wavs_witness:
  "''rec/sub/b.wav'' \<in> set (recordings (Walker_init ''rec''
      (Some (Dir [(''a.wav'', File), (''sub'', Dir [(''b.wav'', File)]), (''c.txt'', File)]))))
   \<and> recordings (Walker_init ''x.wav'' (Some File)) = [''x.wav'']"
proof
  let ?tree = "Dir [(''a.wav'', File), (''sub'', Dir [(''b.wav'', File)]), (''c.txt'', File)]"
  have "file_under ''rec/sub'' (Dir [(''b.wav'', File)]) (path_join ''rec/sub'' ''b.wav'') ''b.wav''"
    by (rule file_under.here) simp
  then have "file_under (path_join ''rec'' ''sub'') (Dir [(''b.wav'', File)]) ''rec/sub/b.wav'' ''b.wav''"
    by (simp add: path_join_def)
  then have "file_under ''rec'' ?tree ''rec/sub/b.wav'' ''b.wav''"
    by (rule file_under.below [rotated]) simp
  moreover have "endswith ''b.wav'' ''.wav''" by (simp add: endswith_def)
  ultimately show "''rec/sub/b.wav'' \<in> set (recordings (Walker_init ''rec'' (Some ?tree)))"
    using Walker_init_finds_wavs [of "''rec/sub/b.wav''" "''rec''" "Some ?tree"] by blast
next
  show "recordings (Walker_init ''x.wav'' (Some File)) = [''x.wav'']"
    using Walker_init_finds_wavs [of "''x.wav''" "''x.wav''" "Some File"]
    by (simp add: endswith_def)
qed

text \<open>
  The example of the specification, with two more entries: a file with the extension in
  capitals and a directory whose name ends with \<open>.wav\<close>. Neither is found.
\<close>

lemma Walker_init_example:
  "recordings (Walker_init ''rec''
      (Some (Dir [(''a.wav'', File), (''sub'', Dir [(''b.wav'', File), (''D.WAV'', File)]),
                  (''c.txt'', File), (''e.wav'', Dir [])])))
   = [''rec/a.wav'', ''rec/sub/b.wav'']"
  by (simp add: Walker_init_def append_wavs_def path_join_def endswith_def)

subsection \<open>The walker after construction\<close>

lemma call_method_no_append:
  assumes "\<forall>a name. c \<noteq> Append a name"
  shows "snd (call_method wav_read self ls c) = ls"
  using assms by (cases c) (simp_all add: get_recordings_list_def count_def read_wave_def)

lemma run_calls_methods_only:
  assumes "\<forall>c\<in>set calls. \<forall>a name. c \<noteq> Append a name"
  shows "run_calls wav_read self ls calls
         = (map (\<lambda>c. fst (call_method wav_read self ls c)) calls, ls)"
  using assms
proof (induction calls)
  case Nil
  show ?case by simp
next
  case (Cons c calls)
  then have c: "\<forall>a name. c \<noteq> Append a name" by simp
  obtain r where r: "call_method wav_read self ls c = (r, ls)"
    using call_method_no_append [OF c, of wav_read self ls]
    by (cases "call_method wav_read self ls c") simp
  from Cons show ?case by (simp add: r)
qed

lemma run_calls_count_after_listing:
  assumes "Suc i < length calls" "calls ! i = GetRecordingsList" "calls ! Suc i = Count"
  shows "\<exists>xs. fst (run_calls wav_read self ls calls) ! i = Listing (recordings_at self) xs
            \<and> fst (run_calls wav_read self ls calls) ! Suc i = Number (length xs)"
  using assms
proof (induction calls arbitrary: ls i)
  case Nil
  then show ?case by simp
next
  case (Cons c calls)
  obtain r ls' where r: "call_method wav_read self ls c = (r, ls')"
    by (cases "call_method wav_read self ls c")
  obtain rs ls'' where rs: "run_calls wav_read self ls' calls = (rs, ls'')"
    by (cases "run_calls wav_read self ls' calls")
  have run: "fst (run_calls wav_read self ls (c # calls)) = r # rs" by (simp add: r rs)
  show ?case
  proof (cases i)
    case 0
    with Cons.prems have c: "c = GetRecordingsList" and hd: "calls ! 0 = Count" and ne: "calls \<noteq> []"
      by auto
    from r c have r0: "r = Listing (recordings_at self) (ls ! recordings_at self)" and same: "ls' = ls"
      by (auto simp: get_recordings_list_def)
    from ne hd obtain rest where calls: "calls = Count # rest" by (cases calls) auto
    have "rs ! 0 = Number (length (ls ! recordings_at self))"
      using rs by (auto simp: calls same count_def split: prod.splits)
    with r0 run 0 show ?thesis by simp
  next
    case (Suc j)
    with Cons.prems have "Suc j < length calls" "calls ! j = GetRecordingsList" "calls ! Suc j = Count"
      by simp_all
    from Cons.IH [OF this, of ls'] rs run Suc show ?thesis by simp
  qed
qed

text \<open>
  C9. No method of a walker changes its entry list: whatever methods are called, in any
  order and any number of times, the store of lists is afterwards as it was, every call
  of \<open>get_recordings_list\<close> returns the walker's own list with the entries built at
  construction, and every call of \<open>count\<close> returns their number. The list is not
  immutable, for \<open>get_recordings_list\<close> returns the list object itself: whatever a
  client does with it, a call of \<open>count\<close> right after a call of \<open>get_recordings_list\<close>
  returns the length of the list just returned.
\<close>

theorem walker_methods_keep_entries:
  "((\<forall>c\<in>set calls. \<forall>a name. c \<noteq> Append a name) \<longrightarrow>
      snd (run_calls wav_read self ls calls) = ls
    \<and> length (fst (run_calls wav_read self ls calls)) = length calls
    \<and> (\<forall>i<length calls. calls ! i = GetRecordingsList \<longrightarrow>
          fst (run_calls wav_read self ls calls) ! i
          = Listing (recordings_at self) (ls ! recordings_at self))
    \<and> (\<forall>i<length calls. calls ! i = Count \<longrightarrow>
          fst (run_calls wav_read self ls calls) ! i = Number (length (ls ! recordings_at self))))
   \<and> (\<forall>i. Suc i < length calls \<longrightarrow> calls ! i = GetRecordingsList \<longrightarrow> calls ! Suc i = Count \<longrightarrow>
        (\<exists>xs. fst (run_calls wav_read self ls calls) ! i = Listing (recordings_at self) xs
            \<and> fst (run_calls wav_read self ls calls) ! Suc i = Number (length xs)))"
proof (intro conjI impI allI)
  assume m: "\<forall>c\<in>set calls. \<forall>a name. c \<noteq> Append a name"
  note run = run_calls_methods_only [OF m, of wav_read self ls]
  show "snd (run_calls wav_read self ls calls) = ls" by (simp add: run)
  show "length (fst (run_calls wav_read self ls calls)) = length calls" by (simp add: run)
  show "fst (run_calls wav_read self ls calls) ! i
          = Listing (recordings_at self) (ls ! recordings_at self)"
    if "i < length calls" "calls ! i = GetRecordingsList" for i
    using that by (simp add: run get_recordings_list_def)
  show "fst (run_calls wav_read self ls calls) ! i = Number (length (ls ! recordings_at self))"
    if "i < length calls" "calls ! i = Count" for i
    using that by (simp add: run count_def)
next
  fix i
  assume "Suc i < length calls" "calls ! i = GetRecordingsList" "calls ! Suc i = Count"
  then show "\<exists>xs. fst (run_calls wav_read self ls calls) ! i = Listing (recordings_at self) xs
            \<and> fst (run_calls wav_read self ls calls) ! Suc i = Number (length xs)"
    by (rule run_calls_count_after_listing)
qed

theorem walker_methods_keep_entries_witness:
  "fst (run_calls (codec_of 8000 [1, 2]) (fst (new_Walker ''x.wav'' (Some File) []))
          (snd (new_Walker ''x.wav'' (Some File) []))
          [GetRecordingsList, ReadWave, Count, GetRecordingsList]) ! 3 = Listing 0 [''x.wav'']
   \<and> fst (run_calls (codec_of 8000 [1, 2]) (fst (new_Walker ''x.wav'' (Some File) []))
          (snd (new_Walker ''x.wav'' (Some File) []))
          [GetRecordingsList, ReadWave, Count, GetRecordingsList]) ! 2 = Number 1"
  using walker_methods_keep_entries [of "[GetRecordingsList, ReadWave, Count, GetRecordingsList]"
      "codec_of 8000 [1, 2]" "fst (new_Walker ''x.wav'' (Some File) [])"
      "snd (new_Walker ''x.wav'' (Some File) [])", THEN conjunct1]
  by (simp add: new_Walker_def Walker_init_def endswith_def)

text \<open>
  A client that appends to the list it was given changes the walker's entries: the next
  call of \<open>get_recordings_list\<close> returns two entries where the first returned one, and
  \<open>count\<close> is 2.
\<close>

theorem walker_entries_counterexample:
  "run_calls (codec_of 8000 [1, 2]) (fst (new_Walker ''x.wav'' (Some File) []))
      (snd (new_Walker ''x.wav'' (Some File) []))
      [GetRecordingsList, Append 0 ''ghost.wav'', Count, GetRecordingsList]
   = ([Listing 0 [''x.wav''], NoValue, Number 2, Listing 0 [''x.wav'', ''ghost.wav'']],
      [[''x.wav'', ''ghost.wav'']])"
  by (simp add: new_Walker_def Walker_init_def endswith_def get_recordings_list_def count_def)

end
